theory Spec2Isabelle
  imports Main "HOL-Library.Word"
begin

unbundle bit_operations_syntax

section \<open>The syntax table of m4/syntax.c\<close>

text \<open>
  A shallow embedding of \<^verbatim>\<open>src/m4/syntax.c\<close>.  Bytes (\<^verbatim>\<open>unsigned char\<close>, and
  \<^verbatim>\<open>char\<close> after \<^verbatim>\<open>to_uchar\<close>) are \<open>8 word\<close>; the entries of the two
  classification vectors (\<^verbatim>\<open>unsigned short\<close>) are \<open>16 word\<close>; category codes are
  C \<^verbatim>\<open>int\<close>s that stay between \<open>-1\<close> and \<open>0xffff\<close> and are modelled as \<open>int\<close>;
  \<^verbatim>\<open>quote_age\<close> (\<^verbatim>\<open>unsigned int\<close>) is \<open>32 word\<close>.  A failed \<^verbatim>\<open>assert\<close>
  aborts the program: a function that can reach one returns \<open>None\<close> there.
\<close>

type_synonym byte = "8 word"
type_synonym ushort = "16 word"

subsection \<open>Category codes\<close>

text \<open>
  Modelled from the spec: the enumeration \<^verbatim>\<open>M4_SYNTAX_*\<close> and the macro
  \<^verbatim>\<open>M4_SYNTAX_MASKS\<close> of the header m4module.h, which the source includes and which is
  missing.  The spec (section 3) has the basis categories mutually exclusive in the low
  bits of an entry and RQUOTE, ECOMM as flag bits ORed onto the basis; the header comment
  of syntax.c calls RQUOTE and ECOMM bit masks, and \<^verbatim>\<open>m4_syntax_code\<close> lists the codes
  in the order of the header.  IGNORE is 0, every other category is one bit, in that order.
\<close>

definition M4_SYNTAX_IGNORE :: int where "M4_SYNTAX_IGNORE = 0"
definition M4_SYNTAX_ESCAPE :: int where "M4_SYNTAX_ESCAPE = 1"
definition M4_SYNTAX_ALPHA :: int where "M4_SYNTAX_ALPHA = 2"
definition M4_SYNTAX_LQUOTE :: int where "M4_SYNTAX_LQUOTE = 4"
definition M4_SYNTAX_BCOMM :: int where "M4_SYNTAX_BCOMM = 8"
definition M4_SYNTAX_OTHER :: int where "M4_SYNTAX_OTHER = 16"
definition M4_SYNTAX_NUM :: int where "M4_SYNTAX_NUM = 32"
definition M4_SYNTAX_DOLLAR :: int where "M4_SYNTAX_DOLLAR = 64"
definition M4_SYNTAX_LBRACE :: int where "M4_SYNTAX_LBRACE = 128"
definition M4_SYNTAX_RBRACE :: int where "M4_SYNTAX_RBRACE = 256"
definition M4_SYNTAX_SPACE :: int where "M4_SYNTAX_SPACE = 512"
definition M4_SYNTAX_ACTIVE :: int where "M4_SYNTAX_ACTIVE = 1024"
definition M4_SYNTAX_OPEN :: int where "M4_SYNTAX_OPEN = 2048"
definition M4_SYNTAX_CLOSE :: int where "M4_SYNTAX_CLOSE = 4096"
definition M4_SYNTAX_COMMA :: int where "M4_SYNTAX_COMMA = 8192"
definition M4_SYNTAX_RQUOTE :: int where "M4_SYNTAX_RQUOTE = 16384"
definition M4_SYNTAX_ECOMM :: int where "M4_SYNTAX_ECOMM = 32768"

definition M4_SYNTAX_MASKS :: int where
  "M4_SYNTAX_MASKS = M4_SYNTAX_RQUOTE OR M4_SYNTAX_ECOMM"

subsection \<open>C strings\<close>

text \<open>
  A \<^verbatim>\<open>const char *\<close> argument is the list of its bytes; the string ends at the first
  NUL byte or at the end of the list (where the terminator stands).  A null pointer is
  \<open>None\<close> of an \<open>option\<close>.
\<close>

definition cstr :: "byte list \<Rightarrow> byte list" where
  "cstr xs = takeWhile (\<lambda>c. c \<noteq> 0) xs"

text \<open>\<^verbatim>\<open>*p\<close>: the first byte, the terminator when the string is empty.\<close>

definition deref :: "byte list \<Rightarrow> byte" where
  "deref xs = (case xs of [] \<Rightarrow> 0 | c # _ \<Rightarrow> c)"

definition strlen :: "byte list \<Rightarrow> nat" where
  "strlen xs = length (cstr xs)"

definition xstrdup :: "byte list \<Rightarrow> byte list" where
  "xstrdup xs = cstr xs"

definition strcmp_eq :: "byte list \<Rightarrow> byte list \<Rightarrow> bool" where
  "strcmp_eq xs ys = (cstr xs = cstr ys)"

text \<open>
  \<^verbatim>\<open>*p = v\<close> on an owned string.  Every such store in the source follows an assertion
  that the string has length 1; on the empty list (a store over the terminator) the model
  leaves the list as it is.
\<close>

definition poke :: "byte list \<Rightarrow> byte \<Rightarrow> byte list" where
  "poke xs v = xs[0 := v]"

text \<open>
  Modelled from the spec: the default delimiters \<^verbatim>\<open>DEF_LQUOTE\<close>, \<^verbatim>\<open>DEF_RQUOTE\<close>,
  \<^verbatim>\<open>DEF_BCOMM\<close>, \<^verbatim>\<open>DEF_ECOMM\<close> of the missing header: backtick, apostrophe,
  \<^verbatim>\<open>#\<close> and newline (spec, section 3, Lifecycle).
\<close>

definition DEF_LQUOTE :: "byte list" where "DEF_LQUOTE = [96]"
definition DEF_RQUOTE :: "byte list" where "DEF_RQUOTE = [39]"
definition DEF_BCOMM :: "byte list" where "DEF_BCOMM = [35]"
definition DEF_ECOMM :: "byte list" where "DEF_ECOMM = [10]"

subsection \<open>The table\<close>

text \<open>
  Modelled from the spec: \<^verbatim>\<open>m4_string_pair\<close> and \<^verbatim>\<open>struct m4_syntax_table\<close> are
  declared in the missing headers; the fields are those syntax.c reads and writes.
  \<open>cached_simple\<close> points at the two arrays \<open>cached_lquote\<close> and \<open>cached_rquote\<close>, whose
  first bytes are the fields of these names; of \<open>cached_simple\<close> itself the two lengths
  are kept.  \<open>cached_quote\<close> is the copy on the obstack, \<open>None\<close> for a null pointer.
\<close>

record m4_string_pair =
  str1 :: "byte list"
  len1 :: nat
  str2 :: "byte list"
  len2 :: nat

record m4_syntax_table =
  table :: "byte \<Rightarrow> ushort"
  orig :: "byte \<Rightarrow> ushort"
  quote :: m4_string_pair
  comm :: m4_string_pair
  is_single_quotes :: bool
  is_single_comments :: bool
  is_macro_escaped :: bool
  syntax_age :: "16 word"
  quote_age :: "32 word"
  cached_quote :: "m4_string_pair option"
  cached_lquote :: byte
  cached_rquote :: byte
  cached_simple_len1 :: nat
  cached_simple_len2 :: nat

text \<open>
  Modelled from the spec: the macro \<^verbatim>\<open>m4_has_syntax\<close> of the missing header (spec,
  section 6, has_category: true if the entry bitwise-ANDs with the requested bits).  The
  entry is promoted to \<^verbatim>\<open>int\<close> before the AND.
\<close>

definition m4_has_syntax :: "m4_syntax_table \<Rightarrow> byte \<Rightarrow> int \<Rightarrow> bool" where
  "m4_has_syntax syntax ch t = (0 < (uint (table syntax ch) AND t))"

text \<open>
  Modelled from the spec: the macro \<^verbatim>\<open>m4__quote_uncache\<close> of the missing header
  (spec, section 4.3: invalidate the cached quote copy).
\<close>

definition m4__quote_uncache :: "m4_syntax_table \<Rightarrow> m4_syntax_table" where
  "m4__quote_uncache syntax = syntax\<lparr>cached_quote := None\<rparr>"

subsection \<open>Loops over all bytes\<close>

text \<open>
  \<^verbatim>\<open>for (ch = UCHAR_MAX + 1; --ch >= 0; ) body\<close> is \<open>for_uchar_down body 256\<close>: the
  body runs on 255, 254, ..., 0 and an abort in the body aborts the loop.
\<close>

fun for_uchar_down :: "(byte \<Rightarrow> 'a \<Rightarrow> 'a option) \<Rightarrow> nat \<Rightarrow> 'a \<Rightarrow> 'a option" where
  "for_uchar_down body 0 s = Some s"
| "for_uchar_down body (Suc n) s = Option.bind (body (of_nat n) s) (for_uchar_down body n)"

subsection \<open>m4_syntax_code\<close>

text \<open>The keys are ASCII characters: \<^verbatim>\<open>'I'\<close> is 73, \<^verbatim>\<open>'i'\<close> is 105, and so on.\<close>

definition m4_syntax_code :: "byte \<Rightarrow> int" where
  "m4_syntax_code ch =
    (if ch = 73 \<or> ch = 105 then M4_SYNTAX_IGNORE
     else if ch = 64 then M4_SYNTAX_ESCAPE
     else if ch = 87 \<or> ch = 119 then M4_SYNTAX_ALPHA
     else if ch = 76 \<or> ch = 108 then M4_SYNTAX_LQUOTE
     else if ch = 66 \<or> ch = 98 then M4_SYNTAX_BCOMM
     else if ch = 79 \<or> ch = 111 then M4_SYNTAX_OTHER
     else if ch = 68 \<or> ch = 100 then M4_SYNTAX_NUM
     else if ch = 36 then M4_SYNTAX_DOLLAR
     else if ch = 123 then M4_SYNTAX_LBRACE
     else if ch = 125 then M4_SYNTAX_RBRACE
     else if ch = 83 \<or> ch = 115 then M4_SYNTAX_SPACE
     else if ch = 65 \<or> ch = 97 then M4_SYNTAX_ACTIVE
     else if ch = 40 then M4_SYNTAX_OPEN
     else if ch = 41 then M4_SYNTAX_CLOSE
     else if ch = 44 then M4_SYNTAX_COMMA
     else if ch = 82 \<or> ch = 114 then M4_SYNTAX_RQUOTE
     else if ch = 69 \<or> ch = 101 then M4_SYNTAX_ECOMM
     else - 1)"

subsection \<open>Attribute primitives\<close>

text \<open>
  Both primitives return the new entry, which no caller in the file uses; the model
  returns the table.  The store truncates the \<^verbatim>\<open>int\<close> to \<^verbatim>\<open>unsigned short\<close>.
\<close>

definition add_syntax_attribute :: "m4_syntax_table \<Rightarrow> byte \<Rightarrow> int \<Rightarrow> m4_syntax_table" where
  "add_syntax_attribute syntax ch code =
    (if code AND M4_SYNTAX_MASKS \<noteq> 0
     then syntax\<lparr>table := (table syntax)(ch := word_of_int (uint (table syntax ch) OR code))\<rparr>
     else syntax\<lparr>table := (table syntax)
            (ch := word_of_int ((uint (table syntax ch) AND M4_SYNTAX_MASKS) OR code))\<rparr>)"

definition remove_syntax_attribute ::
  "m4_syntax_table \<Rightarrow> byte \<Rightarrow> int \<Rightarrow> m4_syntax_table option" where
  "remove_syntax_attribute syntax ch code =
    (if code AND M4_SYNTAX_MASKS = 0 then None
     else Some (syntax\<lparr>table := (table syntax)
            (ch := word_of_int (uint (table syntax ch) AND NOT code))\<rparr>))"

subsection \<open>The derived-boolean checkers\<close>

text \<open>
  The scan of \<^verbatim>\<open>check_is_single_quotes\<close> and of \<^verbatim>\<open>check_is_single_comments\<close> (the
  same loop, on LQUOTE/RQUOTE and on BCOMM/ECOMM).  The locals are the two bytes found so
  far (\<open>None\<close> for \<open>-1\<close>) and the flag; a second bearer clears the flag and leaves the
  loop at once.
\<close>

fun single_scan ::
  "m4_syntax_table \<Rightarrow> int \<Rightarrow> int \<Rightarrow> nat \<Rightarrow> byte option \<times> byte option \<times> bool
    \<Rightarrow> byte option \<times> byte option \<times> bool" where
  "single_scan syntax cl cr 0 acc = acc"
| "single_scan syntax cl cr (Suc n) (l, r, single) =
    (let ch = of_nat n in
     if m4_has_syntax syntax ch cl \<and> l \<noteq> None then (l, r, False)
     else
       let l' = (if m4_has_syntax syntax ch cl then Some ch else l) in
       if m4_has_syntax syntax ch cr \<and> r \<noteq> None then (l', r, False)
       else single_scan syntax cl cr n
              (l', if m4_has_syntax syntax ch cr then Some ch else r, single))"

definition check_is_single_quotes :: "m4_syntax_table \<Rightarrow> m4_syntax_table option" where
  "check_is_single_quotes syntax =
    (if \<not> is_single_quotes syntax then Some syntax
     else if \<not> (len1 (quote syntax) = 1 \<and> len2 (quote syntax) = 1) then None
     else if m4_has_syntax syntax (deref (str1 (quote syntax))) M4_SYNTAX_LQUOTE
           \<and> m4_has_syntax syntax (deref (str2 (quote syntax))) M4_SYNTAX_RQUOTE
       then Some syntax
     else
       (case single_scan syntax M4_SYNTAX_LQUOTE M4_SYNTAX_RQUOTE 256 (None, None, True) of
          (Some lquote, Some rquote, True) \<Rightarrow>
            Some (syntax\<lparr>quote := (quote syntax)
                    \<lparr>str1 := poke (str1 (quote syntax)) lquote,
                     str2 := poke (str2 (quote syntax)) rquote\<rparr>\<rparr>)
        | _ \<Rightarrow> Some (syntax\<lparr>is_single_quotes := False\<rparr>)))"

definition check_is_single_comments :: "m4_syntax_table \<Rightarrow> m4_syntax_table option" where
  "check_is_single_comments syntax =
    (if \<not> is_single_comments syntax then Some syntax
     else if \<not> (len1 (comm syntax) = 1 \<and> len2 (comm syntax) = 1) then None
     else if m4_has_syntax syntax (deref (str1 (comm syntax))) M4_SYNTAX_BCOMM
           \<and> m4_has_syntax syntax (deref (str2 (comm syntax))) M4_SYNTAX_ECOMM
       then Some syntax
     else
       (case single_scan syntax M4_SYNTAX_BCOMM M4_SYNTAX_ECOMM 256 (None, None, True) of
          (Some bcomm, Some ecomm, True) \<Rightarrow>
            Some (syntax\<lparr>comm := (comm syntax)
                    \<lparr>str1 := poke (str1 (comm syntax)) bcomm,
                     str2 := poke (str2 (comm syntax)) ecomm\<rparr>\<rparr>)
        | _ \<Rightarrow> Some (syntax\<lparr>is_single_comments := False\<rparr>)))"

fun escape_scan :: "m4_syntax_table \<Rightarrow> nat \<Rightarrow> m4_syntax_table" where
  "escape_scan syntax 0 = syntax"
| "escape_scan syntax (Suc n) =
    (if m4_has_syntax syntax (of_nat n) M4_SYNTAX_ESCAPE
     then syntax\<lparr>is_macro_escaped := True\<rparr>
     else escape_scan syntax n)"

definition check_is_macro_escaped :: "m4_syntax_table \<Rightarrow> m4_syntax_table" where
  "check_is_macro_escaped syntax = escape_scan (syntax\<lparr>is_macro_escaped := False\<rparr>) 256"

subsection \<open>The changesyntax verbs\<close>

fun add_loop :: "m4_syntax_table \<Rightarrow> byte list \<Rightarrow> int \<Rightarrow> m4_syntax_table" where
  "add_loop syntax [] code = syntax"
| "add_loop syntax (c # chars) code =
    (if c = 0 then syntax else add_loop (add_syntax_attribute syntax c code) chars code)"

definition add_syntax_set :: "m4_syntax_table \<Rightarrow> byte list \<Rightarrow> int \<Rightarrow> m4_syntax_table" where
  "add_syntax_set syntax chars code =
    (if deref chars = 0 then syntax
     else add_loop
            (if code = M4_SYNTAX_ESCAPE then syntax\<lparr>is_macro_escaped := True\<rparr> else syntax)
            chars code)"

fun subtract_loop :: "m4_syntax_table \<Rightarrow> byte list \<Rightarrow> int \<Rightarrow> m4_syntax_table option" where
  "subtract_loop syntax [] code = Some syntax"
| "subtract_loop syntax (c # chars) code =
    (if c = 0 then Some syntax
     else Option.bind
       (if code AND M4_SYNTAX_MASKS \<noteq> 0 then remove_syntax_attribute syntax c code
        else if m4_has_syntax syntax c code
          then Some (add_syntax_attribute syntax c M4_SYNTAX_OTHER)
        else Some syntax)
       (\<lambda>syntax'. subtract_loop syntax' chars code))"

definition subtract_cleanup :: "m4_syntax_table \<Rightarrow> int \<Rightarrow> m4_syntax_table option" where
  "subtract_cleanup syntax code =
    (if code = M4_SYNTAX_ESCAPE
       then Some (if is_macro_escaped syntax then check_is_macro_escaped syntax else syntax)
     else if code = M4_SYNTAX_LQUOTE \<or> code = M4_SYNTAX_RQUOTE
       then (if is_single_quotes syntax then check_is_single_quotes syntax else Some syntax)
     else if code = M4_SYNTAX_BCOMM \<or> code = M4_SYNTAX_ECOMM
       then (if is_single_comments syntax then check_is_single_comments syntax
             else Some syntax)
     else Some syntax)"

definition subtract_syntax_set ::
  "m4_syntax_table \<Rightarrow> byte list \<Rightarrow> int \<Rightarrow> m4_syntax_table option" where
  "subtract_syntax_set syntax chars code =
    (if deref chars = 0 then Some syntax
     else Option.bind (subtract_loop syntax chars code)
            (\<lambda>syntax'. subtract_cleanup syntax' code))"

definition run_checkers :: "m4_syntax_table \<Rightarrow> m4_syntax_table option" where
  "run_checkers syntax =
    Option.bind (check_is_single_quotes (check_is_macro_escaped syntax))
      check_is_single_comments"

definition set_sweep_body :: "int \<Rightarrow> byte \<Rightarrow> m4_syntax_table \<Rightarrow> m4_syntax_table option" where
  "set_sweep_body code ch syntax =
    (if code = M4_SYNTAX_RQUOTE \<or> code = M4_SYNTAX_ECOMM
       then remove_syntax_attribute syntax ch code
     else if m4_has_syntax syntax ch code
       then Some (add_syntax_attribute syntax ch M4_SYNTAX_OTHER)
     else Some syntax)"

definition set_syntax_set ::
  "m4_syntax_table \<Rightarrow> byte list \<Rightarrow> int \<Rightarrow> m4_syntax_table option" where
  "set_syntax_set syntax chars code =
    Option.bind (for_uchar_down (set_sweep_body code) 256 syntax)
      (\<lambda>syntax'. run_checkers (add_loop syntax' chars code))"

definition reset_sweep_body :: "int \<Rightarrow> byte \<Rightarrow> m4_syntax_table \<Rightarrow> m4_syntax_table option" where
  "reset_sweep_body code ch syntax =
    (if code = M4_SYNTAX_RQUOTE
       then (if ch = 39 then Some (add_syntax_attribute syntax ch code)
             else remove_syntax_attribute syntax ch code)
     else if code = M4_SYNTAX_ECOMM
       then (if ch = 10 then Some (add_syntax_attribute syntax ch code)
             else remove_syntax_attribute syntax ch code)
     else if uint (orig syntax ch) = code \<or> m4_has_syntax syntax ch code
       then Some (add_syntax_attribute syntax ch (uint (orig syntax ch)))
     else Some syntax)"

definition reset_syntax_set :: "m4_syntax_table \<Rightarrow> int \<Rightarrow> m4_syntax_table option" where
  "reset_syntax_set syntax code =
    Option.bind (for_uchar_down (reset_sweep_body code) 256 syntax) run_checkers"

subsection \<open>The quote age\<close>

definition local_syntax_age :: "m4_syntax_table \<Rightarrow> bool \<Rightarrow> bool \<Rightarrow> 16 word" where
  "local_syntax_age syntax reset change =
    (if reset then 0
     else if change \<and> syntax_age syntax < 0xffff then syntax_age syntax + 1
     else syntax_age syntax)"

definition quotes_safe :: "m4_syntax_table \<Rightarrow> 16 word \<Rightarrow> bool" where
  "quotes_safe syntax age =
    (age < 0xffff \<and> is_single_quotes syntax
     \<and> \<not> m4_has_syntax syntax (deref (str1 (quote syntax)))
           (M4_SYNTAX_ALPHA OR M4_SYNTAX_NUM OR M4_SYNTAX_OPEN OR M4_SYNTAX_COMMA
            OR M4_SYNTAX_CLOSE OR M4_SYNTAX_SPACE)
     \<and> \<not> m4_has_syntax syntax (deref (str2 (quote syntax)))
           (M4_SYNTAX_ALPHA OR M4_SYNTAX_NUM OR M4_SYNTAX_OPEN OR M4_SYNTAX_COMMA
            OR M4_SYNTAX_CLOSE OR M4_SYNTAX_SPACE)
     \<and> deref (str1 (quote syntax)) \<noteq> deref (str2 (quote syntax))
     \<and> (len1 (comm syntax) = 0
         \<or> (deref (str1 (comm syntax)) \<noteq> deref (str2 (quote syntax))
            \<and> \<not> m4_has_syntax syntax (deref (str1 (comm syntax)))
                  (M4_SYNTAX_OPEN OR M4_SYNTAX_COMMA OR M4_SYNTAX_CLOSE)))
     \<and> m4_has_syntax syntax 44 M4_SYNTAX_COMMA)"

definition pack_quote_age :: "16 word \<Rightarrow> byte \<Rightarrow> byte \<Rightarrow> 32 word" where
  "pack_quote_age age l r =
    push_bit 16 (ucast age) OR push_bit 8 (ucast l AND 0xff) OR (ucast r AND 0xff)"

definition set_quote_age :: "m4_syntax_table \<Rightarrow> bool \<Rightarrow> bool \<Rightarrow> m4_syntax_table" where
  "set_quote_age syntax reset change =
    (let age = local_syntax_age syntax reset change;
         syntax1 = (if \<not> reset \<and> change \<and> syntax_age syntax < 0xffff
                    then syntax\<lparr>syntax_age := syntax_age syntax + 1\<rparr> else syntax)
     in if quotes_safe syntax1 age
        then syntax1\<lparr>quote_age := pack_quote_age age (deref (str1 (quote syntax1)))
                                    (deref (str2 (quote syntax1)))\<rparr>
        else syntax1\<lparr>quote_age := 0\<rparr>)"

subsection \<open>m4_set_syntax\<close>

definition m4_set_syntax ::
  "m4_syntax_table \<Rightarrow> byte \<Rightarrow> byte \<Rightarrow> byte list option \<Rightarrow> (int \<times> m4_syntax_table) option" where
  "m4_set_syntax syntax key action chars =
    (if chars = None \<and> key \<noteq> 0 then None
     else if key = 0 then
       let s1 = syntax\<lparr>table := orig syntax,
                  quote := \<lparr>str1 = xstrdup DEF_LQUOTE, len1 = 1,
                            str2 = xstrdup DEF_RQUOTE, len2 = 1\<rparr>,
                  comm := \<lparr>str1 = xstrdup DEF_BCOMM, len1 = 1,
                           str2 = xstrdup DEF_ECOMM, len2 = 1\<rparr>\<rparr>;
           s2 = add_syntax_attribute s1 (deref (str2 (quote s1))) M4_SYNTAX_RQUOTE;
           s3 = add_syntax_attribute s2 (deref (str2 (comm s2))) M4_SYNTAX_ECOMM;
           s4 = s3\<lparr>is_single_quotes := True, is_single_comments := True,
                   is_macro_escaped := False\<rparr>
       in Some (0, set_quote_age s4 True False)
     else
       let code = m4_syntax_code key in
       if code < 0 then Some (- 1, syntax)
       else
         Option.bind
           (if action = 43 then Some (add_syntax_set syntax (the chars) code)
            else if action = 45 then subtract_syntax_set syntax (the chars) code
            else if action = 61 then set_syntax_set syntax (the chars) code
            else if action = 0 then reset_syntax_set syntax code
            else None)
           (\<lambda>syntax'. Some (code, m4__quote_uncache (set_quote_age syntax' False True))))"

subsection \<open>The delimiter installers\<close>

definition effective_quotes ::
  "byte list option \<Rightarrow> byte list option \<Rightarrow> byte list \<times> byte list" where
  "effective_quotes lq rq =
    (if lq = None then (DEF_LQUOTE, DEF_RQUOTE)
     else if rq = None \<or> (deref (the lq) \<noteq> 0 \<and> deref (the rq) = 0)
       then (the lq, DEF_RQUOTE)
     else (the lq, the rq))"

definition quotes_sweep_body :: "byte \<Rightarrow> m4_syntax_table \<Rightarrow> m4_syntax_table option" where
  "quotes_sweep_body ch syntax =
    (let s1 = (if m4_has_syntax syntax ch M4_SYNTAX_LQUOTE
               then add_syntax_attribute syntax ch
                      (if uint (orig syntax ch) = M4_SYNTAX_LQUOTE then M4_SYNTAX_OTHER
                       else uint (orig syntax ch))
               else syntax)
     in if m4_has_syntax s1 ch M4_SYNTAX_RQUOTE
        then remove_syntax_attribute s1 ch M4_SYNTAX_RQUOTE
        else Some s1)"

text \<open>The blocks of \<^verbatim>\<open>m4_set_quotes\<close>, in the order of the source.\<close>

definition store_quotes :: "m4_syntax_table \<Rightarrow> byte list \<Rightarrow> byte list \<Rightarrow> m4_syntax_table" where
  "store_quotes syntax lq rq =
    (let s1 = syntax\<lparr>quote := \<lparr>str1 = xstrdup lq, len1 = strlen lq,
                                   str2 = xstrdup rq, len2 = strlen rq\<rparr>\<rparr>
     in s1\<lparr>is_single_quotes :=
            (len1 (quote s1) = 1 \<and> len2 (quote s1) = 1
             \<and> \<not> m4_has_syntax s1 (deref (str1 (quote s1)))
                   (M4_SYNTAX_IGNORE OR M4_SYNTAX_ESCAPE OR M4_SYNTAX_ALPHA
                    OR M4_SYNTAX_NUM))\<rparr>)"

definition install_quotes :: "m4_syntax_table \<Rightarrow> m4_syntax_table" where
  "install_quotes syntax =
    (if is_single_quotes syntax
     then add_syntax_attribute
            (add_syntax_attribute syntax (deref (str1 (quote syntax))) M4_SYNTAX_LQUOTE)
            (deref (str2 (quote syntax))) M4_SYNTAX_RQUOTE
     else syntax)"

definition recheck_macro_escaped :: "m4_syntax_table \<Rightarrow> m4_syntax_table" where
  "recheck_macro_escaped syntax =
    (if is_macro_escaped syntax then check_is_macro_escaped syntax else syntax)"

definition m4_set_quotes ::
  "m4_syntax_table \<Rightarrow> byte list option \<Rightarrow> byte list option \<Rightarrow> m4_syntax_table option" where
  "m4_set_quotes syntax lq0 rq0 =
    (let lq = fst (effective_quotes lq0 rq0); rq = snd (effective_quotes lq0 rq0) in
     if strcmp_eq (str1 (quote syntax)) lq \<and> strcmp_eq (str2 (quote syntax)) rq
     then Some syntax
     else Option.bind (for_uchar_down quotes_sweep_body 256 (store_quotes syntax lq rq))
            (\<lambda>s3. Some (set_quote_age (recheck_macro_escaped (install_quotes s3))
                          False False)))"

definition effective_comment ::
  "byte list option \<Rightarrow> byte list option \<Rightarrow> byte list \<times> byte list" where
  "effective_comment bc ec =
    (if bc = None then ([], [])
     else if ec = None \<or> (deref (the bc) \<noteq> 0 \<and> deref (the ec) = 0)
       then (the bc, DEF_ECOMM)
     else (the bc, the ec))"

definition comment_sweep_body :: "byte \<Rightarrow> m4_syntax_table \<Rightarrow> m4_syntax_table option" where
  "comment_sweep_body ch syntax =
    (let s1 = (if m4_has_syntax syntax ch M4_SYNTAX_BCOMM
               then add_syntax_attribute syntax ch
                      (if uint (orig syntax ch) = M4_SYNTAX_BCOMM then M4_SYNTAX_OTHER
                       else uint (orig syntax ch))
               else syntax)
     in if m4_has_syntax s1 ch M4_SYNTAX_ECOMM
        then remove_syntax_attribute s1 ch M4_SYNTAX_ECOMM
        else Some s1)"

text \<open>The blocks of \<^verbatim>\<open>m4_set_comment\<close>, in the order of the source.\<close>

definition store_comment :: "m4_syntax_table \<Rightarrow> byte list \<Rightarrow> byte list \<Rightarrow> m4_syntax_table" where
  "store_comment syntax bc ec =
    (let s1 = syntax\<lparr>comm := \<lparr>str1 = xstrdup bc, len1 = strlen bc,
                                  str2 = xstrdup ec, len2 = strlen ec\<rparr>\<rparr>
     in s1\<lparr>is_single_comments :=
            (len1 (comm s1) = 1 \<and> len2 (comm s1) = 1
             \<and> \<not> m4_has_syntax s1 (deref (str1 (comm s1)))
                   (M4_SYNTAX_IGNORE OR M4_SYNTAX_ESCAPE OR M4_SYNTAX_ALPHA
                    OR M4_SYNTAX_NUM OR M4_SYNTAX_LQUOTE))\<rparr>)"

definition install_comment :: "m4_syntax_table \<Rightarrow> m4_syntax_table" where
  "install_comment syntax =
    (if is_single_comments syntax
     then add_syntax_attribute
            (add_syntax_attribute syntax (deref (str1 (comm syntax))) M4_SYNTAX_BCOMM)
            (deref (str2 (comm syntax))) M4_SYNTAX_ECOMM
     else syntax)"

definition m4_set_comment ::
  "m4_syntax_table \<Rightarrow> byte list option \<Rightarrow> byte list option \<Rightarrow> m4_syntax_table option" where
  "m4_set_comment syntax bc0 ec0 =
    (let bc = fst (effective_comment bc0 ec0); ec = snd (effective_comment bc0 ec0) in
     if strcmp_eq (str1 (comm syntax)) bc \<and> strcmp_eq (str2 (comm syntax)) ec
     then Some syntax
     else Option.bind (for_uchar_down comment_sweep_body 256 (store_comment syntax bc ec))
            (\<lambda>s3. Some (set_quote_age (recheck_macro_escaped (install_comment s3))
                          False False)))"

subsection \<open>Creation\<close>

text \<open>
  \<^verbatim>\<open>isspace\<close>, \<^verbatim>\<open>isalpha\<close> and \<^verbatim>\<open>isdigit\<close> of the C library, in the C locale
  (spec, section 9: space, tab, CR, LF, FF, VT).
\<close>

definition isspace :: "byte \<Rightarrow> bool" where
  "isspace ch = (ch = 32 \<or> (9 \<le> ch \<and> ch \<le> 13))"

definition isalpha :: "byte \<Rightarrow> bool" where
  "isalpha ch = ((65 \<le> ch \<and> ch \<le> 90) \<or> (97 \<le> ch \<and> ch \<le> 122))"

definition isdigit :: "byte \<Rightarrow> bool" where
  "isdigit ch = (48 \<le> ch \<and> ch \<le> 57)"

text \<open>The \<^verbatim>\<open>switch\<close> of \<^verbatim>\<open>m4_syntax_create\<close>: the default category of a byte.\<close>

definition default_syntax :: "byte \<Rightarrow> int" where
  "default_syntax ch =
    (if ch = 40 then M4_SYNTAX_OPEN
     else if ch = 41 then M4_SYNTAX_CLOSE
     else if ch = 44 then M4_SYNTAX_COMMA
     else if ch = 36 then M4_SYNTAX_DOLLAR
     else if ch = 123 then M4_SYNTAX_LBRACE
     else if ch = 125 then M4_SYNTAX_RBRACE
     else if ch = 96 then M4_SYNTAX_LQUOTE
     else if ch = 35 then M4_SYNTAX_BCOMM
     else if isspace ch then M4_SYNTAX_SPACE
     else if isalpha ch \<or> ch = 95 then M4_SYNTAX_ALPHA
     else if isdigit ch then M4_SYNTAX_NUM
     else M4_SYNTAX_OTHER)"

text \<open>\<^verbatim>\<open>xzalloc\<close>: every field zero; the four string pointers are null.\<close>

definition xzalloc :: m4_syntax_table where
  "xzalloc =
    \<lparr>table = (\<lambda>_. 0), orig = (\<lambda>_. 0),
     quote = \<lparr>str1 = [], len1 = 0, str2 = [], len2 = 0\<rparr>,
     comm = \<lparr>str1 = [], len1 = 0, str2 = [], len2 = 0\<rparr>,
     is_single_quotes = False, is_single_comments = False, is_macro_escaped = False,
     syntax_age = 0, quote_age = 0, cached_quote = None,
     cached_lquote = 0, cached_rquote = 0,
     cached_simple_len1 = 0, cached_simple_len2 = 0\<rparr>"

definition create_body :: "byte \<Rightarrow> m4_syntax_table \<Rightarrow> m4_syntax_table option" where
  "create_body ch syntax =
    Some (syntax\<lparr>orig := (orig syntax)(ch := word_of_int (default_syntax ch))\<rparr>)"

definition m4_syntax_create :: "m4_syntax_table option" where
  "m4_syntax_create =
    Option.bind (for_uchar_down create_body 256 xzalloc)
      (\<lambda>s1. Option.bind (m4_set_syntax s1 0 0 None)
         (\<lambda>r. Some ((snd r)\<lparr>cached_simple_len1 := 1, cached_simple_len2 := 1\<rparr>)))"

subsection \<open>The quote cache\<close>

text \<open>
  Modelled from the spec: the obstack (spec, section 4.6: a scratch allocator handle) is
  an external collaborator; of it the model keeps the size of the object under
  construction and the objects copied onto it.  A pointer to a string pair is one of the
  places the function compares or returns.
\<close>

datatype pair_ref = Quote_pair | Cached_simple | Cached_quote | Other_pair nat

datatype obstack_object = Pair_object m4_string_pair | String_object "byte list"

record m4_obstack =
  object_size :: nat
  objects :: "obstack_object list"

definition m4__quote_cache ::
  "m4_syntax_table \<Rightarrow> m4_obstack option \<Rightarrow> 32 word \<Rightarrow> pair_ref option
    \<Rightarrow> (pair_ref option \<times> m4_syntax_table \<times> m4_obstack option) option" where
  "m4__quote_cache syntax obs age quotes =
    (case quotes of
       None \<Rightarrow> Some (None, syntax, obs)
     | Some q \<Rightarrow>
         if age \<noteq> 0 then
           Some (Some Cached_simple,
                 syntax\<lparr>cached_lquote := ucast (drop_bit 8 age AND 0xff),
                        cached_rquote := ucast (age AND 0xff)\<rparr>, obs)
         else
           (case obs of
              None \<Rightarrow> Some (Some q, syntax, obs)
            | Some ob \<Rightarrow>
                if q \<noteq> Quote_pair then None
                else
                  (case cached_quote syntax of
                     Some _ \<Rightarrow> Some (Some Cached_quote, syntax, obs)
                   | None \<Rightarrow>
                       if object_size ob \<noteq> 0 then None
                       else
                         let s1 = take (len1 (quote syntax)) (str1 (quote syntax));
                             s2 = take (len2 (quote syntax)) (str2 (quote syntax))
                         in Some (Some Cached_quote,
                                  syntax\<lparr>cached_quote :=
                                    Some ((quote syntax)\<lparr>str1 := s1, str2 := s2\<rparr>)\<rparr>,
                                  Some (ob\<lparr>objects := objects ob @
                                    [Pair_object (quote syntax), String_object s1,
                                     String_object s2]\<rparr>)))))"

subsection \<open>Runs of operations\<close>

text \<open>
  The operations a caller can apply to a table, and the table reached from a fresh one by a
  list of them.  A run is \<open>None\<close> when an assertion fails on the way.
\<close>

datatype operation =
  Changesyntax byte byte "byte list option"
| Changequote "byte list option" "byte list option"
| Changecom "byte list option" "byte list option"
| Quote_cache "m4_obstack option" "32 word" "pair_ref option"

fun step :: "m4_syntax_table \<Rightarrow> operation \<Rightarrow> m4_syntax_table option" where
  "step s (Changesyntax key action chars) = map_option snd (m4_set_syntax s key action chars)"
| "step s (Changequote lq rq) = m4_set_quotes s lq rq"
| "step s (Changecom bc ec) = m4_set_comment s bc ec"
| "step s (Quote_cache obs age quotes) =
     map_option (\<lambda>r. fst (snd r)) (m4__quote_cache s obs age quotes)"

fun run_from :: "m4_syntax_table \<Rightarrow> operation list \<Rightarrow> m4_syntax_table option" where
  "run_from s [] = Some s"
| "run_from s (x # xs) = Option.bind (step s x) (\<lambda>s'. run_from s' xs)"

definition run :: "operation list \<Rightarrow> m4_syntax_table option" where
  "run xs = Option.bind m4_syntax_create (\<lambda>s. run_from s xs)"

inductive reachable :: "m4_syntax_table \<Rightarrow> bool" where
  reachable_create: "m4_syntax_create = Some s \<Longrightarrow> reachable s"
| reachable_step: "reachable s \<Longrightarrow> step s x = Some s' \<Longrightarrow> reachable s'"

subsection \<open>Entries\<close>

text \<open>
  What \<^verbatim>\<open>m4_has_syntax\<close>, \<^verbatim>\<open>add_syntax_attribute\<close> and
  \<^verbatim>\<open>remove_syntax_attribute\<close> do to the one entry they touch, and what the bodies of
  the sweeps do to the entry of their byte.
\<close>

definition has_code :: "ushort \<Rightarrow> int \<Rightarrow> bool" where
  "has_code e t = (0 < (uint e AND t))"

definition add_code :: "ushort \<Rightarrow> int \<Rightarrow> ushort" where
  "add_code e code =
    (if code AND M4_SYNTAX_MASKS \<noteq> 0 then word_of_int (uint e OR code)
     else word_of_int ((uint e AND M4_SYNTAX_MASKS) OR code))"

definition remove_code :: "ushort \<Rightarrow> int \<Rightarrow> ushort" where
  "remove_code e code = word_of_int (uint e AND NOT code)"

definition default_table :: "byte \<Rightarrow> ushort" where
  "default_table c = word_of_int (default_syntax c)"

definition set_sweep_entry :: "int \<Rightarrow> ushort \<Rightarrow> ushort" where
  "set_sweep_entry code e =
    (if code = M4_SYNTAX_RQUOTE \<or> code = M4_SYNTAX_ECOMM then remove_code e code
     else if has_code e code then add_code e M4_SYNTAX_OTHER
     else e)"

definition reset_sweep_entry :: "int \<Rightarrow> (byte \<Rightarrow> ushort) \<Rightarrow> byte \<Rightarrow> ushort \<Rightarrow> ushort" where
  "reset_sweep_entry code dflt ch e =
    (if code = M4_SYNTAX_RQUOTE
       then (if ch = 39 then add_code e code else remove_code e code)
     else if code = M4_SYNTAX_ECOMM
       then (if ch = 10 then add_code e code else remove_code e code)
     else if uint (dflt ch) = code \<or> has_code e code then add_code e (uint (dflt ch))
     else e)"

definition delimiter_sweep_entry ::
  "int \<Rightarrow> int \<Rightarrow> (byte \<Rightarrow> ushort) \<Rightarrow> byte \<Rightarrow> ushort \<Rightarrow> ushort" where
  "delimiter_sweep_entry cl cr dflt ch e =
    (let e1 = (if has_code e cl
               then add_code e (if uint (dflt ch) = cl then M4_SYNTAX_OTHER
                                else uint (dflt ch))
               else e)
     in if has_code e1 cr then remove_code e1 cr else e1)"

subsection \<open>The keys of the spec\<close>

text \<open>
  The keys that section 4.7 of the spec lists: I i @ W w L l B b O o D d $ { } S s A a
  ( ) , R r E e.
\<close>

definition known_key :: "byte \<Rightarrow> bool" where
  "known_key k =
    (k \<in> set [73, 105, 64, 87, 119, 76, 108, 66, 98, 79, 111, 68, 100, 36, 123, 125,
               83, 115, 65, 97, 40, 41, 44, 82, 114, 69, 101])"

text \<open>The return code of \<^verbatim>\<open>m4_set_syntax\<close> on the table that a run reaches.\<close>

definition changesyntax_code ::
  "operation list \<Rightarrow> byte \<Rightarrow> byte \<Rightarrow> byte list option \<Rightarrow> int option" where
  "changesyntax_code xs key action chars =
    Option.bind (run xs) (\<lambda>s. map_option fst (m4_set_syntax s key action chars))"

text \<open>
  The entry of a byte after \<^verbatim>\<open>add_syntax_attribute\<close> and then
  \<^verbatim>\<open>remove_syntax_attribute\<close> of the same code on that byte.
\<close>

definition add_then_remove :: "m4_syntax_table \<Rightarrow> byte \<Rightarrow> int \<Rightarrow> ushort option" where
  "add_then_remove s b m =
    map_option (\<lambda>s'. table s' b) (remove_syntax_attribute (add_syntax_attribute s b m) b m)"

definition entry_after :: "operation list \<Rightarrow> byte \<Rightarrow> ushort option" where
  "entry_after xs b = map_option (\<lambda>s. table s b) (run xs)"

definition add_then_remove_after :: "operation list \<Rightarrow> byte \<Rightarrow> int \<Rightarrow> ushort option" where
  "add_then_remove_after xs b m = Option.bind (run xs) (\<lambda>s. add_then_remove s b m)"

subsection \<open>Frames, closed forms and invariants\<close>

text \<open>
  \<open>steady\<close>: what the verbs and the sweeps leave alone.  \<open>installed_defaults\<close>,
  \<open>quotes_installed\<close> and \<open>comment_installed\<close>: the table that the full reset,
  \<^verbatim>\<open>m4_set_quotes\<close> and \<^verbatim>\<open>m4_set_comment\<close> hand to \<^verbatim>\<open>set_quote_age\<close>
  (\<open>quotes_swept\<close> and \<open>comment_swept\<close> are the tables after their sweeps).
  \<open>well_formed\<close> and \<open>quote_age_inv\<close>: invariants of the reachable tables.
\<close>

definition steady :: "m4_syntax_table \<Rightarrow> m4_syntax_table \<Rightarrow> bool" where
  "steady s s' =
    (orig s' = orig s \<and> syntax_age s' = syntax_age s
     \<and> len1 (quote s') = len1 (quote s) \<and> len2 (quote s') = len2 (quote s)
     \<and> len1 (comm s') = len1 (comm s) \<and> len2 (comm s') = len2 (comm s)
     \<and> length (str1 (quote s')) = length (str1 (quote s))
     \<and> length (str2 (quote s')) = length (str2 (quote s))
     \<and> length (str1 (comm s')) = length (str1 (comm s))
     \<and> length (str2 (comm s')) = length (str2 (comm s))
     \<and> (is_single_quotes s' \<longrightarrow> is_single_quotes s)
     \<and> (is_single_comments s' \<longrightarrow> is_single_comments s))"


definition installed_defaults :: "m4_syntax_table \<Rightarrow> m4_syntax_table" where
  "installed_defaults s =
    s\<lparr>quote := \<lparr>str1 = [96], len1 = 1, str2 = [39], len2 = 1\<rparr>,
      comm := \<lparr>str1 = [35], len1 = 1, str2 = [10], len2 = 1\<rparr>,
      table := (orig s)(39 := add_code (orig s 39) M4_SYNTAX_RQUOTE,
                        10 := add_code (orig s 10) M4_SYNTAX_ECOMM),
      is_single_quotes := True, is_single_comments := True, is_macro_escaped := False\<rparr>"

definition quotes_swept :: "m4_syntax_table \<Rightarrow> m4_syntax_table" where
  "quotes_swept s =
    s\<lparr>table := (\<lambda>c. delimiter_sweep_entry M4_SYNTAX_LQUOTE M4_SYNTAX_RQUOTE (orig s) c
                       (table s c))\<rparr>"

definition quotes_installed :: "m4_syntax_table \<Rightarrow> byte list \<Rightarrow> byte list \<Rightarrow> m4_syntax_table" where
  "quotes_installed s lq rq =
    recheck_macro_escaped (install_quotes (quotes_swept (store_quotes s lq rq)))"

definition comment_swept :: "m4_syntax_table \<Rightarrow> m4_syntax_table" where
  "comment_swept s =
    s\<lparr>table := (\<lambda>c. delimiter_sweep_entry M4_SYNTAX_BCOMM M4_SYNTAX_ECOMM (orig s) c
                       (table s c))\<rparr>"

definition comment_installed :: "m4_syntax_table \<Rightarrow> byte list \<Rightarrow> byte list \<Rightarrow> m4_syntax_table" where
  "comment_installed s bc ec =
    recheck_macro_escaped (install_comment (comment_swept (store_comment s bc ec)))"

definition well_formed :: "m4_syntax_table \<Rightarrow> bool" where
  "well_formed s =
    (orig s = default_table
     \<and> len1 (quote s) = length (str1 (quote s)) \<and> len2 (quote s) = length (str2 (quote s))
     \<and> len1 (comm s) = length (str1 (comm s)) \<and> len2 (comm s) = length (str2 (comm s))
     \<and> (is_single_quotes s \<longrightarrow> len1 (quote s) = 1 \<and> len2 (quote s) = 1)
     \<and> (is_single_comments s \<longrightarrow> len1 (comm s) = 1 \<and> len2 (comm s) = 1))"

definition quote_age_inv :: "m4_syntax_table \<Rightarrow> bool" where
  "quote_age_inv s =
    (quote_age s \<noteq> 0 \<longrightarrow>
      (quotes_safe s 0
        \<and> quote_age s = pack_quote_age 0 (deref (str1 (quote s))) (deref (str2 (quote s))))
      \<or> (quotes_safe s (syntax_age s)
        \<and> quote_age s = pack_quote_age (syntax_age s) (deref (str1 (quote s)))
             (deref (str2 (quote s)))))"

text \<open>The basis categories: every code but the two masks.\<close>

definition basis_code :: "int \<Rightarrow> bool" where
  "basis_code k = (k \<in> set [M4_SYNTAX_IGNORE, M4_SYNTAX_ESCAPE, M4_SYNTAX_ALPHA,
     M4_SYNTAX_LQUOTE, M4_SYNTAX_BCOMM, M4_SYNTAX_OTHER, M4_SYNTAX_NUM, M4_SYNTAX_DOLLAR,
     M4_SYNTAX_LBRACE, M4_SYNTAX_RBRACE, M4_SYNTAX_SPACE, M4_SYNTAX_ACTIVE, M4_SYNTAX_OPEN,
     M4_SYNTAX_CLOSE, M4_SYNTAX_COMMA])"

text \<open>
  \<open>found_ok\<close>: the bytes that a scan has found carry the two categories.
  \<open>single_quotes_inv\<close> and \<open>single_comments_inv\<close>: a flag that is set comes with
  strings of length 1 whose bytes carry the two categories.
\<close>

definition found_ok :: "m4_syntax_table \<Rightarrow> int \<Rightarrow> int \<Rightarrow> byte option \<times> byte option \<times> bool \<Rightarrow> bool" where
  "found_ok s cl cr acc =
    ((case fst acc of None \<Rightarrow> True | Some x \<Rightarrow> m4_has_syntax s x cl)
     \<and> (case fst (snd acc) of None \<Rightarrow> True | Some y \<Rightarrow> m4_has_syntax s y cr))"

definition single_quotes_inv :: "m4_syntax_table \<Rightarrow> bool" where
  "single_quotes_inv s =
    (is_single_quotes s \<longrightarrow>
      len1 (quote s) = 1 \<and> len2 (quote s) = 1
      \<and> m4_has_syntax s (deref (str1 (quote s))) M4_SYNTAX_LQUOTE
      \<and> m4_has_syntax s (deref (str2 (quote s))) M4_SYNTAX_RQUOTE)"

definition single_comments_inv :: "m4_syntax_table \<Rightarrow> bool" where
  "single_comments_inv s =
    (is_single_comments s \<longrightarrow>
      len1 (comm s) = 1 \<and> len2 (comm s) = 1
      \<and> m4_has_syntax s (deref (str1 (comm s))) M4_SYNTAX_BCOMM
      \<and> m4_has_syntax s (deref (str2 (comm s))) M4_SYNTAX_ECOMM)"

subsection \<open>One basis per entry, and the quote bytes\<close>

text \<open>
  \<open>valid_code\<close>: the codes that \<^verbatim>\<open>m4_syntax_code\<close> can return for a key.
  \<open>entry_ok\<close>: the basis part of an entry (the bits below the two masks) is one basis
  category; \<open>table_ok\<close>: so is every entry of the table, and \<^verbatim>\<open>orig\<close> is the default
  classification.  \<open>carried_on s s'\<close>: every byte that carries LQUOTE or RQUOTE in \<open>s\<close>
  still carries it in \<open>s'\<close>.  \<open>asserts_hold s x\<close>: the assertions that the operation
  \<open>x\<close> makes on its arguments and on the cache hold in \<open>s\<close>.  \<open>carries\<close> is
  \<^verbatim>\<open>m4_has_syntax\<close> with the table last, and \<open>entry_at\<close> is the entry of a byte.
  \<open>basis_of\<close>: the basis category of an entry, the entry without the two masks.
  \<open>overwrites_left_quote s x\<close>: the flag is set in \<open>s\<close> and \<open>x\<close> is the add verb of
  \<^verbatim>\<open>m4_set_syntax\<close> with a basis category other than LQUOTE and a string that holds the
  stored left-quote byte.  \<open>recomputes_single_quotes x\<close>: \<open>x\<close> is one of the two
  operations that assign the flag from scratch, \<^verbatim>\<open>m4_set_quotes\<close> and the full reset.
\<close>

definition valid_code :: "int \<Rightarrow> bool" where
  "valid_code c = (basis_code c \<or> c = M4_SYNTAX_RQUOTE \<or> c = M4_SYNTAX_ECOMM)"

definition entry_ok :: "ushort \<Rightarrow> bool" where
  "entry_ok e = basis_code (uint (e AND 0x3FFF))"

definition table_ok :: "m4_syntax_table \<Rightarrow> bool" where
  "table_ok s = (orig s = default_table \<and> (\<forall>b. entry_ok (table s b)))"

definition carried_on :: "m4_syntax_table \<Rightarrow> m4_syntax_table \<Rightarrow> bool" where
  "carried_on s s' =
    (\<forall>b. (m4_has_syntax s b M4_SYNTAX_LQUOTE \<longrightarrow> m4_has_syntax s' b M4_SYNTAX_LQUOTE)
       \<and> (m4_has_syntax s b M4_SYNTAX_RQUOTE \<longrightarrow> m4_has_syntax s' b M4_SYNTAX_RQUOTE))"


definition carries :: "byte \<Rightarrow> int \<Rightarrow> m4_syntax_table \<Rightarrow> bool" where
  "carries b code s = m4_has_syntax s b code"

definition basis_of :: "ushort \<Rightarrow> int" where
  "basis_of e = uint (e AND 0x3FFF)"

definition entry_at :: "byte \<Rightarrow> m4_syntax_table \<Rightarrow> ushort" where
  "entry_at b s = table s b"

fun overwrites_left_quote :: "m4_syntax_table \<Rightarrow> operation \<Rightarrow> bool" where
  "overwrites_left_quote s (Changesyntax key action chars) =
     (key \<noteq> 0 \<and> action = 43 \<and> basis_code (m4_syntax_code key)
      \<and> m4_syntax_code key \<noteq> M4_SYNTAX_LQUOTE \<and> is_single_quotes s
      \<and> (case chars of None \<Rightarrow> False
          | Some cs \<Rightarrow> deref (str1 (quote s)) \<in> set (cstr cs)))"
| "overwrites_left_quote s (Changequote lq rq) = False"
| "overwrites_left_quote s (Changecom bc ec) = False"
| "overwrites_left_quote s (Quote_cache obs age quotes) = False"


subsection \<open>Counting verbs\<close>

text \<open>
  A changesyntax verb is a call of \<^verbatim>\<open>m4_set_syntax\<close> that reaches the \<^verbatim>\<open>switch\<close>
  on the action: the key is not NUL and names a category.
\<close>

fun is_verb :: "operation \<Rightarrow> bool" where
  "is_verb (Changesyntax key action chars) = (key \<noteq> 0 \<and> 0 \<le> m4_syntax_code key)"
| "is_verb (Changequote lq rq) = False"
| "is_verb (Changecom bc ec) = False"
| "is_verb (Quote_cache obs age quotes) = False"

definition verb_count :: "operation list \<Rightarrow> nat" where
  "verb_count xs = length (filter is_verb xs)"

definition quote_age_upper :: "m4_syntax_table \<Rightarrow> 32 word" where
  "quote_age_upper s = drop_bit 16 (quote_age s)"

text \<open>The fresh table: \<^verbatim>\<open>m4_syntax_create\<close> has no failing assertion on its way.\<close>

definition fresh :: m4_syntax_table where
  "fresh = the m4_syntax_create"

section \<open>Properties\<close>

lemmas code_defs =
  M4_SYNTAX_IGNORE_def M4_SYNTAX_ESCAPE_def M4_SYNTAX_ALPHA_def M4_SYNTAX_LQUOTE_def
  M4_SYNTAX_BCOMM_def M4_SYNTAX_OTHER_def M4_SYNTAX_NUM_def M4_SYNTAX_DOLLAR_def
  M4_SYNTAX_LBRACE_def M4_SYNTAX_RBRACE_def M4_SYNTAX_SPACE_def M4_SYNTAX_ACTIVE_def
  M4_SYNTAX_OPEN_def M4_SYNTAX_CLOSE_def M4_SYNTAX_COMMA_def M4_SYNTAX_RQUOTE_def
  M4_SYNTAX_ECOMM_def M4_SYNTAX_MASKS_def

lemmas string_defs =
  cstr_def deref_def strlen_def xstrdup_def strcmp_eq_def poke_def
  DEF_LQUOTE_def DEF_RQUOTE_def DEF_BCOMM_def DEF_ECOMM_def

subsection \<open>Entries as words\<close>

lemma uint_and_word_of_int: "uint ((e::ushort) AND word_of_int k) = uint e AND k"
  by (rule bit_eqI) (auto simp: bit_simps dest: bit_imp_le_length)

lemma has_code_word: "has_code e t = (e AND word_of_int t \<noteq> 0)"
proof -
  have "(e AND word_of_int t = 0) = (uint e AND t = 0)"
    using uint_and_word_of_int [of e t] by (simp add: word_uint_eq_iff)
  then show ?thesis by (auto simp: has_code_def less_le)
qed

lemma add_code_word:
  "add_code e code =
    (if code AND M4_SYNTAX_MASKS \<noteq> 0 then e OR word_of_int code
     else (e AND 0xC000) OR word_of_int code)"
proof -
  have 1: "(word_of_int (uint e OR code) :: ushort) = e OR word_of_int code"
    by (rule bit_word_eqI) (simp add: bit_simps)
  have 2: "(word_of_int ((uint e AND 49152) OR code) :: ushort)
      = (e AND word_of_int 49152) OR word_of_int code"
    by (rule bit_word_eqI) (simp add: bit_simps)
  show ?thesis using 1 2 by (simp add: add_code_def code_defs)
qed

lemma remove_code_word: "remove_code e code = e AND NOT (word_of_int code)"
  unfolding remove_code_def by (rule bit_word_eqI) (simp add: bit_simps)

lemma m4_has_syntax_code: "m4_has_syntax s ch t = has_code (table s ch) t"
  by (simp add: m4_has_syntax_def has_code_def)

lemma add_syntax_attribute_code:
  "add_syntax_attribute s ch code = s\<lparr>table := (table s)(ch := add_code (table s ch) code)\<rparr>"
  by (simp add: add_syntax_attribute_def add_code_def)

lemma remove_syntax_attribute_code:
  "code AND M4_SYNTAX_MASKS \<noteq> 0 \<Longrightarrow>
   remove_syntax_attribute s ch code
     = Some (s\<lparr>table := (table s)(ch := remove_code (table s ch) code)\<rparr>)"
  by (simp add: remove_syntax_attribute_def remove_code_def)

subsection \<open>The sweeps, pointwise\<close>

lemma unat_byte_less: "unat (c :: byte) < 256"
  using unsigned_less [of c, where ?'a = nat] by simp

lemma unat_of_nat_byte: "n < 256 \<Longrightarrow> unat (of_nat n :: byte) = n"
  by (simp add: unat_of_nat)

lemma unat_eq_byte: "n < 256 \<Longrightarrow> (unat (c :: byte) = n) = (c = of_nat n)"
  using unat_of_nat_byte by (metis of_nat_unat ucast_id)

lemma for_uchar_down_table:
  assumes body: "\<And>ch s. body ch s
    = Some (s\<lparr>table := (table s)(ch := g (orig s) ch (table s ch))\<rparr>)"
  shows "n \<le> 256 \<Longrightarrow> for_uchar_down body n s
    = Some (s\<lparr>table := (\<lambda>c. if unat c < n then g (orig s) c (table s c) else table s c)\<rparr>)"
proof (induction n arbitrary: s)
  case 0
  then show ?case by simp
next
  case (Suc n)
  have n: "n < 256" using Suc.prems by simp
  define s1 where
    "s1 = s\<lparr>table := (table s)(of_nat n := g (orig s) (of_nat n) (table s (of_nat n)))\<rparr>"
  have "for_uchar_down body (Suc n) s = for_uchar_down body n s1"
    by (simp add: body s1_def)
  also have "\<dots> = Some (s1\<lparr>table :=
      (\<lambda>c. if unat c < n then g (orig s1) c (table s1 c) else table s1 c)\<rparr>)"
    using n by (intro Suc.IH) simp
  also have "\<dots> = Some (s\<lparr>table :=
      (\<lambda>c. if unat c < Suc n then g (orig s) c (table s c) else table s c)\<rparr>)"
    using n by (auto simp: s1_def fun_eq_iff less_Suc_eq unat_eq_byte unat_of_nat_byte)
  finally show ?case .
qed

lemma for_uchar_down_table_all:
  assumes body: "\<And>ch s. body ch s
    = Some (s\<lparr>table := (table s)(ch := g (orig s) ch (table s ch))\<rparr>)"
  shows "for_uchar_down body 256 s = Some (s\<lparr>table := (\<lambda>c. g (orig s) c (table s c))\<rparr>)"
  using for_uchar_down_table [of body g 256 s, OF body] by (simp add: unat_byte_less)

lemma create_loop:
  "n \<le> 256 \<Longrightarrow> for_uchar_down create_body n s
     = Some (s\<lparr>orig := (\<lambda>c. if unat c < n then default_table c else orig s c)\<rparr>)"
proof (induction n arbitrary: s)
  case 0
  then show ?case by simp
next
  case (Suc n)
  have n: "n < 256" using Suc.prems by simp
  define s1 where "s1 = s\<lparr>orig := (orig s)(of_nat n := default_table (of_nat n))\<rparr>"
  have "for_uchar_down create_body (Suc n) s = for_uchar_down create_body n s1"
    by (simp add: create_body_def s1_def default_table_def)
  also have "\<dots> = Some (s1\<lparr>orig :=
      (\<lambda>c. if unat c < n then default_table c else orig s1 c)\<rparr>)"
    using n by (intro Suc.IH) simp
  also have "\<dots> = Some (s\<lparr>orig :=
      (\<lambda>c. if unat c < Suc n then default_table c else orig s c)\<rparr>)"
    using n by (auto simp: s1_def fun_eq_iff less_Suc_eq unat_eq_byte unat_of_nat_byte)
  finally show ?case .
qed

lemma create_loop_all:
  "for_uchar_down create_body 256 s = Some (s\<lparr>orig := default_table\<rparr>)"
  using create_loop [of 256 s] by (simp add: unat_byte_less)

lemma default_table_simps:
  "default_table 96 = 4" "default_table 39 = 16" "default_table 10 = 512"
  "default_table 35 = 8" "default_table 44 = 8192" "default_table 0 = 16"
  by (simp_all add: default_table_def default_syntax_def code_defs isspace_def
      isalpha_def isdigit_def)

subsection \<open>Creation\<close>

lemma create_Some:
  "m4_syntax_create = Some
    (xzalloc\<lparr>orig := default_table,
       table := default_table(39 := 16400, 10 := 33280),
       quote := \<lparr>str1 = [96], len1 = 1, str2 = [39], len2 = 1\<rparr>,
       comm := \<lparr>str1 = [35], len1 = 1, str2 = [10], len2 = 1\<rparr>,
       is_single_quotes := True, is_single_comments := True, is_macro_escaped := False,
       quote_age := 0x6027, cached_simple_len1 := 1, cached_simple_len2 := 1\<rparr>)"
  by (simp add: m4_syntax_create_def create_loop_all m4_set_syntax_def Let_def
     string_defs add_syntax_attribute_code set_quote_age_def local_syntax_age_def
     quotes_safe_def m4_has_syntax_code default_table_simps add_code_def has_code_def
     code_defs pack_quote_age_def xzalloc_def)

lemma fresh_eq:
  "fresh = xzalloc\<lparr>orig := default_table,
       table := default_table(39 := 16400, 10 := 33280),
       quote := \<lparr>str1 = [96], len1 = 1, str2 = [39], len2 = 1\<rparr>,
       comm := \<lparr>str1 = [35], len1 = 1, str2 = [10], len2 = 1\<rparr>,
       is_single_quotes := True, is_single_comments := True, is_macro_escaped := False,
       quote_age := 0x6027, cached_simple_len1 := 1, cached_simple_len2 := 1\<rparr>"
  by (simp add: fresh_def create_Some)

lemma create_fresh: "m4_syntax_create = Some fresh"
  by (simp add: fresh_def create_Some)

lemma reachable_fresh: "reachable fresh"
  by (rule reachable_create) (rule create_fresh)

lemma run_Nil: "run [] = Some fresh"
  by (simp add: run_def create_fresh)

subsection \<open>Frames\<close>

lemma steady_refl: "steady s s"
  by (simp add: steady_def)

lemma steady_trans: "steady s s' \<Longrightarrow> steady s' s'' \<Longrightarrow> steady s s''"
  by (simp add: steady_def)

lemma steady_table: "steady s (s\<lparr>table := t\<rparr>)"
  by (simp add: steady_def)

lemma steady_add_syntax_attribute: "steady s (add_syntax_attribute s ch code)"
  by (simp add: add_syntax_attribute_code steady_def)

lemma steady_remove_syntax_attribute:
  "remove_syntax_attribute s ch code = Some s' \<Longrightarrow> steady s s'"
  by (auto simp: remove_syntax_attribute_def steady_def split: if_splits)

lemma steady_add_loop: "steady s (add_loop s chars code)"
proof (induction chars arbitrary: s)
  case Nil
  show ?case by (simp add: steady_refl)
next
  case (Cons c chars)
  show ?case
    using steady_trans [OF steady_add_syntax_attribute Cons.IH] by (simp add: steady_refl)
qed

lemma steady_add_syntax_set: "steady s (add_syntax_set s chars code)"
proof -
  have "steady s (s\<lparr>is_macro_escaped := True\<rparr>)" by (simp add: steady_def)
  then show ?thesis
    using steady_trans [OF _ steady_add_loop] by (simp add: add_syntax_set_def steady_refl)
qed

lemma steady_for_uchar_down:
  assumes "\<And>ch s s'. body ch s = Some s' \<Longrightarrow> steady s s'"
  shows "for_uchar_down body n s = Some s' \<Longrightarrow> steady s s'"
proof (induction n arbitrary: s)
  case 0
  then show ?case by (simp add: steady_refl)
next
  case (Suc n)
  then obtain s1 where 1: "body (of_nat n) s = Some s1" and 2: "for_uchar_down body n s1 = Some s'"
    by (auto simp: bind_eq_Some_conv)
  show ?case using steady_trans [OF assms [OF 1] Suc.IH [OF 2]] .
qed

lemma steady_subtract_loop: "subtract_loop s chars code = Some s' \<Longrightarrow> steady s s'"
proof (induction chars arbitrary: s)
  case Nil
  then show ?case by (simp add: steady_refl)
next
  case (Cons c chars)
  show ?case
  proof (cases "c = 0")
    case True
    then show ?thesis using Cons.prems by (simp add: steady_refl)
  next
    case False
    then obtain s1 where 1: "(if code AND M4_SYNTAX_MASKS \<noteq> 0 then remove_syntax_attribute s c code
        else if m4_has_syntax s c code then Some (add_syntax_attribute s c M4_SYNTAX_OTHER)
        else Some s) = Some s1" and 2: "subtract_loop s1 chars code = Some s'"
      using Cons.prems by (auto simp: bind_eq_Some_conv)
    have "steady s s1" using 1
      by (auto split: if_splits intro: steady_remove_syntax_attribute
          steady_add_syntax_attribute steady_refl)
    then show ?thesis using Cons.IH [OF 2] steady_trans by blast
  qed
qed

lemma escape_scan_cases:
  "escape_scan s n = s \<or> escape_scan s n = s\<lparr>is_macro_escaped := True\<rparr>"
  by (induction n) auto

lemma check_is_macro_escaped_cases:
  "check_is_macro_escaped s = s\<lparr>is_macro_escaped := False\<rparr>
   \<or> check_is_macro_escaped s = s\<lparr>is_macro_escaped := True\<rparr>"
  using escape_scan_cases [of "s\<lparr>is_macro_escaped := False\<rparr>" 256]
  by (auto simp: check_is_macro_escaped_def)

lemma steady_check_is_macro_escaped: "steady s (check_is_macro_escaped s)"
  using check_is_macro_escaped_cases [of s] by (auto simp: steady_def)

lemma table_check_is_macro_escaped [simp]: "table (check_is_macro_escaped s) = table s"
  using check_is_macro_escaped_cases [of s] by auto

lemma steady_check_is_single_quotes:
  "check_is_single_quotes s = Some s' \<Longrightarrow> steady s s' \<and> table s' = table s"
  by (auto simp: check_is_single_quotes_def steady_def poke_def Let_def
      split: if_splits prod.splits option.splits bool.splits)

lemma steady_check_is_single_comments:
  "check_is_single_comments s = Some s' \<Longrightarrow> steady s s' \<and> table s' = table s"
  by (auto simp: check_is_single_comments_def steady_def poke_def Let_def
      split: if_splits prod.splits option.splits bool.splits)

lemma steady_run_checkers: "run_checkers s = Some s' \<Longrightarrow> steady s s' \<and> table s' = table s"
  unfolding run_checkers_def
  by (auto simp: bind_eq_Some_conv dest!: steady_check_is_single_quotes steady_check_is_single_comments
     intro: steady_trans [OF steady_check_is_macro_escaped] steady_trans)


subsection \<open>Closed forms of the sweeps\<close>

lemma masks_and [simp]:
  "M4_SYNTAX_RQUOTE AND M4_SYNTAX_MASKS \<noteq> 0" "M4_SYNTAX_ECOMM AND M4_SYNTAX_MASKS \<noteq> 0"
  by (simp_all add: code_defs)

lemma table_upd_same: "s\<lparr>table := (table s)(ch := table s ch)\<rparr> = s"
  by simp

lemma set_sweep_body_entry:
  "set_sweep_body code ch s
     = Some (s\<lparr>table := (table s)(ch := set_sweep_entry code (table s ch))\<rparr>)"
  by (auto simp: set_sweep_body_def set_sweep_entry_def remove_syntax_attribute_code
      add_syntax_attribute_code m4_has_syntax_code)

lemma set_sweep:
  "for_uchar_down (set_sweep_body code) 256 s
     = Some (s\<lparr>table := (\<lambda>c. set_sweep_entry code (table s c))\<rparr>)"
  by (rule for_uchar_down_table_all [where g = "\<lambda>_ _. set_sweep_entry code"])
     (rule set_sweep_body_entry)

lemma reset_sweep_body_entry:
  "reset_sweep_body code ch s
     = Some (s\<lparr>table := (table s)(ch := reset_sweep_entry code (orig s) ch (table s ch))\<rparr>)"
  by (auto simp: reset_sweep_body_def reset_sweep_entry_def remove_syntax_attribute_code
      add_syntax_attribute_code m4_has_syntax_code)

lemma reset_sweep:
  "for_uchar_down (reset_sweep_body code) 256 s
     = Some (s\<lparr>table := (\<lambda>c. reset_sweep_entry code (orig s) c (table s c))\<rparr>)"
  by (rule for_uchar_down_table_all [where g = "reset_sweep_entry code"])
     (rule reset_sweep_body_entry)

lemma quotes_sweep_body_entry:
  "quotes_sweep_body ch s
     = Some (s\<lparr>table := (table s)(ch :=
         delimiter_sweep_entry M4_SYNTAX_LQUOTE M4_SYNTAX_RQUOTE (orig s) ch (table s ch))\<rparr>)"
  by (auto simp: quotes_sweep_body_def delimiter_sweep_entry_def remove_syntax_attribute_code
      add_syntax_attribute_code m4_has_syntax_code Let_def)

lemma quotes_sweep:
  "for_uchar_down quotes_sweep_body 256 s
     = Some (s\<lparr>table := (\<lambda>c.
         delimiter_sweep_entry M4_SYNTAX_LQUOTE M4_SYNTAX_RQUOTE (orig s) c (table s c))\<rparr>)"
  by (rule for_uchar_down_table_all
        [where g = "delimiter_sweep_entry M4_SYNTAX_LQUOTE M4_SYNTAX_RQUOTE"])
     (rule quotes_sweep_body_entry)

lemma comment_sweep_body_entry:
  "comment_sweep_body ch s
     = Some (s\<lparr>table := (table s)(ch :=
         delimiter_sweep_entry M4_SYNTAX_BCOMM M4_SYNTAX_ECOMM (orig s) ch (table s ch))\<rparr>)"
  by (auto simp: comment_sweep_body_def delimiter_sweep_entry_def remove_syntax_attribute_code
      add_syntax_attribute_code m4_has_syntax_code Let_def)

lemma comment_sweep:
  "for_uchar_down comment_sweep_body 256 s
     = Some (s\<lparr>table := (\<lambda>c.
         delimiter_sweep_entry M4_SYNTAX_BCOMM M4_SYNTAX_ECOMM (orig s) c (table s c))\<rparr>)"
  by (rule for_uchar_down_table_all
        [where g = "delimiter_sweep_entry M4_SYNTAX_BCOMM M4_SYNTAX_ECOMM"])
     (rule comment_sweep_body_entry)

subsection \<open>The verbs keep the frame\<close>

lemma steady_subtract_cleanup: "subtract_cleanup s code = Some s' \<Longrightarrow> steady s s'"
  by (auto simp: subtract_cleanup_def split: if_splits
      dest: steady_check_is_single_quotes steady_check_is_single_comments
      intro: steady_check_is_macro_escaped steady_refl)

lemma steady_subtract_syntax_set: "subtract_syntax_set s chars code = Some s' \<Longrightarrow> steady s s'"
  by (auto simp: subtract_syntax_set_def bind_eq_Some_conv split: if_splits
      intro: steady_refl steady_trans [OF steady_subtract_loop steady_subtract_cleanup])

lemma steady_set_syntax_set: "set_syntax_set s chars code = Some s' \<Longrightarrow> steady s s'"
proof -
  assume "set_syntax_set s chars code = Some s'"
  then have 1: "run_checkers (add_loop (s\<lparr>table := (\<lambda>c. set_sweep_entry code (table s c))\<rparr>) chars code) = Some s'"
    by (simp add: set_syntax_set_def set_sweep)
  show ?thesis
    using steady_trans [OF steady_trans [OF steady_table steady_add_loop]
        conjunct1 [OF steady_run_checkers [OF 1]]] .
qed

lemma steady_reset_syntax_set: "reset_syntax_set s code = Some s' \<Longrightarrow> steady s s'"
proof -
  assume "reset_syntax_set s code = Some s'"
  then have 1: "run_checkers (s\<lparr>table := (\<lambda>c. reset_sweep_entry code (orig s) c (table s c))\<rparr>) = Some s'"
    by (simp add: reset_syntax_set_def reset_sweep)
  show ?thesis
    using steady_trans [OF steady_table conjunct1 [OF steady_run_checkers [OF 1]]] .
qed


subsection \<open>Closed forms of the operations\<close>

lemma m4_set_syntax_null_key:
  "m4_set_syntax s 0 action chars = Some (0, set_quote_age (installed_defaults s) True False)"
  by (simp add: m4_set_syntax_def Let_def add_syntax_attribute_code string_defs
      installed_defaults_def)


lemma m4_set_syntax_verb:
  assumes "m4_set_syntax s key action chars = Some (rc, s')"
    and "key \<noteq> 0" and "0 \<le> m4_syntax_code key"
  shows "rc = m4_syntax_code key
     \<and> (\<exists>s1. steady s s1 \<and> s' = m4__quote_uncache (set_quote_age s1 False True))"
proof -
  from assms obtain s1 where
    1: "(if action = 43 then Some (add_syntax_set s (the chars) (m4_syntax_code key))
          else if action = 45 then subtract_syntax_set s (the chars) (m4_syntax_code key)
          else if action = 61 then set_syntax_set s (the chars) (m4_syntax_code key)
          else if action = 0 then reset_syntax_set s (m4_syntax_code key)
          else None) = Some s1"
    and 2: "rc = m4_syntax_code key" "s' = m4__quote_uncache (set_quote_age s1 False True)"
    by (auto simp: m4_set_syntax_def Let_def bind_eq_Some_conv split: if_splits)
  have "steady s s1" using 1
    by (auto split: if_splits intro: steady_add_syntax_set steady_subtract_syntax_set
        steady_set_syntax_set steady_reset_syntax_set)
  then show ?thesis using 2 by auto
qed

lemma m4_set_quotes_eq:
  "m4_set_quotes s lq0 rq0 =
    Some (if strcmp_eq (str1 (quote s)) (fst (effective_quotes lq0 rq0))
            \<and> strcmp_eq (str2 (quote s)) (snd (effective_quotes lq0 rq0))
          then s
          else set_quote_age (quotes_installed s (fst (effective_quotes lq0 rq0))
                 (snd (effective_quotes lq0 rq0))) False False)"
  by (simp add: m4_set_quotes_def Let_def quotes_sweep quotes_installed_def quotes_swept_def)

lemma m4_set_comment_eq:
  "m4_set_comment s bc0 ec0 =
    Some (if strcmp_eq (str1 (comm s)) (fst (effective_comment bc0 ec0))
            \<and> strcmp_eq (str2 (comm s)) (snd (effective_comment bc0 ec0))
          then s
          else set_quote_age (comment_installed s (fst (effective_comment bc0 ec0))
                 (snd (effective_comment bc0 ec0))) False False)"
  by (simp add: m4_set_comment_def Let_def comment_sweep comment_installed_def comment_swept_def)

lemma store_quotes_simps [simp]:
  "table (store_quotes s lq rq) = table s"
  "orig (store_quotes s lq rq) = orig s"
  "syntax_age (store_quotes s lq rq) = syntax_age s"
  "comm (store_quotes s lq rq) = comm s"
  "is_single_comments (store_quotes s lq rq) = is_single_comments s"
  "is_macro_escaped (store_quotes s lq rq) = is_macro_escaped s"
  "quote (store_quotes s lq rq)
     = \<lparr>str1 = cstr lq, len1 = strlen lq, str2 = cstr rq, len2 = strlen rq\<rparr>"
  "is_single_quotes (store_quotes s lq rq)
     = (strlen lq = 1 \<and> strlen rq = 1
         \<and> \<not> m4_has_syntax s (deref (cstr lq))
               (M4_SYNTAX_IGNORE OR M4_SYNTAX_ESCAPE OR M4_SYNTAX_ALPHA OR M4_SYNTAX_NUM))"
  by (simp_all add: store_quotes_def Let_def xstrdup_def m4_has_syntax_def)

lemma store_comment_simps [simp]:
  "table (store_comment s bc ec) = table s"
  "orig (store_comment s bc ec) = orig s"
  "syntax_age (store_comment s bc ec) = syntax_age s"
  "quote (store_comment s bc ec) = quote s"
  "is_single_quotes (store_comment s bc ec) = is_single_quotes s"
  "is_macro_escaped (store_comment s bc ec) = is_macro_escaped s"
  "comm (store_comment s bc ec)
     = \<lparr>str1 = cstr bc, len1 = strlen bc, str2 = cstr ec, len2 = strlen ec\<rparr>"
  "is_single_comments (store_comment s bc ec)
     = (strlen bc = 1 \<and> strlen ec = 1
         \<and> \<not> m4_has_syntax s (deref (cstr bc))
               (M4_SYNTAX_IGNORE OR M4_SYNTAX_ESCAPE OR M4_SYNTAX_ALPHA OR M4_SYNTAX_NUM
                OR M4_SYNTAX_LQUOTE))"
  by (simp_all add: store_comment_def Let_def xstrdup_def m4_has_syntax_def)

lemma steady_install_quotes: "steady s (install_quotes s)"
  by (simp add: install_quotes_def add_syntax_attribute_code steady_def)

lemma steady_install_comment: "steady s (install_comment s)"
  by (simp add: install_comment_def add_syntax_attribute_code steady_def)

lemma steady_recheck_macro_escaped: "steady s (recheck_macro_escaped s)"
  by (simp add: recheck_macro_escaped_def steady_check_is_macro_escaped steady_refl)

lemma table_recheck_macro_escaped [simp]: "table (recheck_macro_escaped s) = table s"
  by (simp add: recheck_macro_escaped_def)

lemma quote_check_is_macro_escaped [simp]:
  "quote (check_is_macro_escaped s) = quote s"
  "comm (check_is_macro_escaped s) = comm s"
  "is_single_quotes (check_is_macro_escaped s) = is_single_quotes s"
  "is_single_comments (check_is_macro_escaped s) = is_single_comments s"
  "orig (check_is_macro_escaped s) = orig s"
  "syntax_age (check_is_macro_escaped s) = syntax_age s"
  using check_is_macro_escaped_cases [of s] by auto

lemma quote_recheck_macro_escaped [simp]:
  "quote (recheck_macro_escaped s) = quote s"
  "comm (recheck_macro_escaped s) = comm s"
  "is_single_quotes (recheck_macro_escaped s) = is_single_quotes s"
  "is_single_comments (recheck_macro_escaped s) = is_single_comments s"
  "orig (recheck_macro_escaped s) = orig s"
  "syntax_age (recheck_macro_escaped s) = syntax_age s"
  by (simp_all add: recheck_macro_escaped_def)

lemma install_quotes_simps [simp]:
  "quote (install_quotes s) = quote s"
  "comm (install_quotes s) = comm s"
  "is_single_quotes (install_quotes s) = is_single_quotes s"
  "is_single_comments (install_quotes s) = is_single_comments s"
  "is_macro_escaped (install_quotes s) = is_macro_escaped s"
  "orig (install_quotes s) = orig s"
  "syntax_age (install_quotes s) = syntax_age s"
  by (simp_all add: install_quotes_def add_syntax_attribute_code)

lemma install_comment_simps [simp]:
  "quote (install_comment s) = quote s"
  "comm (install_comment s) = comm s"
  "is_single_quotes (install_comment s) = is_single_quotes s"
  "is_single_comments (install_comment s) = is_single_comments s"
  "is_macro_escaped (install_comment s) = is_macro_escaped s"
  "orig (install_comment s) = orig s"
  "syntax_age (install_comment s) = syntax_age s"
  by (simp_all add: install_comment_def add_syntax_attribute_code)

lemma quotes_installed_frame:
  "syntax_age (quotes_installed s lq rq) = syntax_age s"
  "orig (quotes_installed s lq rq) = orig s"
  "comm (quotes_installed s lq rq) = comm s"
  "is_single_comments (quotes_installed s lq rq) = is_single_comments s"
  "quote (quotes_installed s lq rq)
     = \<lparr>str1 = cstr lq, len1 = strlen lq, str2 = cstr rq, len2 = strlen rq\<rparr>"
  "is_single_quotes (quotes_installed s lq rq)
     = (strlen lq = 1 \<and> strlen rq = 1
         \<and> \<not> m4_has_syntax s (deref (cstr lq))
               (M4_SYNTAX_IGNORE OR M4_SYNTAX_ESCAPE OR M4_SYNTAX_ALPHA OR M4_SYNTAX_NUM))"
  by (simp_all add: quotes_installed_def quotes_swept_def)

lemma comment_installed_frame:
  "syntax_age (comment_installed s bc ec) = syntax_age s"
  "orig (comment_installed s bc ec) = orig s"
  "quote (comment_installed s bc ec) = quote s"
  "is_single_quotes (comment_installed s bc ec) = is_single_quotes s"
  "comm (comment_installed s bc ec)
     = \<lparr>str1 = cstr bc, len1 = strlen bc, str2 = cstr ec, len2 = strlen ec\<rparr>"
  "is_single_comments (comment_installed s bc ec)
     = (strlen bc = 1 \<and> strlen ec = 1
         \<and> \<not> m4_has_syntax s (deref (cstr bc))
               (M4_SYNTAX_IGNORE OR M4_SYNTAX_ESCAPE OR M4_SYNTAX_ALPHA OR M4_SYNTAX_NUM
                OR M4_SYNTAX_LQUOTE))"
  by (simp_all add: comment_installed_def comment_swept_def)

subsection \<open>The quote age\<close>

lemma set_quote_age_frame [simp]:
  "table (set_quote_age s r c) = table s"
  "orig (set_quote_age s r c) = orig s"
  "quote (set_quote_age s r c) = quote s"
  "comm (set_quote_age s r c) = comm s"
  "is_single_quotes (set_quote_age s r c) = is_single_quotes s"
  "is_single_comments (set_quote_age s r c) = is_single_comments s"
  "is_macro_escaped (set_quote_age s r c) = is_macro_escaped s"
  by (simp_all add: set_quote_age_def Let_def)

lemma syntax_age_set_quote_age:
  "syntax_age (set_quote_age s r c)
     = (if \<not> r \<and> c \<and> syntax_age s < 0xffff then syntax_age s + 1 else syntax_age s)"
  by (simp add: set_quote_age_def Let_def)

lemma quotes_safe_cong:
  "table s' = table s \<Longrightarrow> quote s' = quote s \<Longrightarrow> comm s' = comm s \<Longrightarrow>
   is_single_quotes s' = is_single_quotes s \<Longrightarrow> quotes_safe s' age = quotes_safe s age"
  by (simp add: quotes_safe_def m4_has_syntax_def)

lemma quote_age_inv_set_quote_age: "quote_age_inv (set_quote_age s r c)"
proof -
  have 1: "quotes_safe (s\<lparr>syntax_age := a\<rparr>) age = quotes_safe s age" for a age
    by (rule quotes_safe_cong) simp_all
  have 2: "quotes_safe (s\<lparr>quote_age := a\<rparr>) age = quotes_safe s age" for a age
    by (rule quotes_safe_cong) simp_all
  have 3: "quotes_safe (s\<lparr>syntax_age := b, quote_age := a\<rparr>) age = quotes_safe s age" for a b age
    by (rule quotes_safe_cong) simp_all
  show ?thesis
    by (auto simp: quote_age_inv_def set_quote_age_def Let_def local_syntax_age_def 1 2 3)
qed

lemma quote_age_inv_cong:
  "table s' = table s \<Longrightarrow> quote s' = quote s \<Longrightarrow> comm s' = comm s \<Longrightarrow>
   is_single_quotes s' = is_single_quotes s \<Longrightarrow> syntax_age s' = syntax_age s \<Longrightarrow>
   quote_age s' = quote_age s \<Longrightarrow> quote_age_inv s' = quote_age_inv s"
  using quotes_safe_cong [of s' s] by (simp add: quote_age_inv_def)

lemma quote_age_inv_uncache: "quote_age_inv (m4__quote_uncache s) = quote_age_inv s"
  by (rule quote_age_inv_cong) (simp_all add: m4__quote_uncache_def)

lemma quote_cache_frame:
  assumes "m4__quote_cache s obs age quotes = Some (r, s', obs')"
  shows "table s' = table s \<and> orig s' = orig s \<and> quote s' = quote s \<and> comm s' = comm s
    \<and> is_single_quotes s' = is_single_quotes s \<and> is_single_comments s' = is_single_comments s
    \<and> is_macro_escaped s' = is_macro_escaped s
    \<and> syntax_age s' = syntax_age s \<and> quote_age s' = quote_age s"
  using assms by (auto simp: m4__quote_cache_def Let_def split: option.splits if_splits)

lemma quote_age_inv_step:
  assumes "step s x = Some s'" and "quote_age_inv s"
  shows "quote_age_inv s'"
proof (cases x)
  case (Changesyntax key action chars)
  then obtain rc where 1: "m4_set_syntax s key action chars = Some (rc, s')"
    using assms(1) by auto
  show ?thesis
  proof (cases "key = 0")
    case True
    then show ?thesis using 1 by (auto simp: m4_set_syntax_null_key quote_age_inv_set_quote_age)
  next
    case False
    show ?thesis
    proof (cases "m4_syntax_code key < 0")
      case True
      then have "s' = s" using 1 False by (auto simp: m4_set_syntax_def split: if_splits)
      then show ?thesis using assms(2) by simp
    next
      case neg: False
      then show ?thesis using m4_set_syntax_verb [OF 1 False]
        by (auto simp: quote_age_inv_uncache quote_age_inv_set_quote_age)
    qed
  qed
next
  case (Changequote lq rq)
  then show ?thesis using assms
    by (auto simp: m4_set_quotes_eq quote_age_inv_set_quote_age split: if_splits)
next
  case (Changecom bc ec)
  then show ?thesis using assms
    by (auto simp: m4_set_comment_eq quote_age_inv_set_quote_age split: if_splits)
next
  case (Quote_cache obs age quotes)
  then obtain r obs' where "m4__quote_cache s obs age quotes = Some (r, s', obs')"
    using assms(1) by auto
  from quote_cache_frame [OF this] show ?thesis
    using assms(2) quote_age_inv_cong [of s' s] by simp
qed

lemma quote_age_inv_fresh: "quote_age_inv fresh"
  by (simp add: quote_age_inv_def fresh_eq xzalloc_def quotes_safe_def m4_has_syntax_code
      default_table_simps has_code_def code_defs pack_quote_age_def deref_def)

lemma quote_age_inv_reachable: "reachable s \<Longrightarrow> quote_age_inv s"
proof (induction rule: reachable.induct)
  case (reachable_create s)
  then show ?case using quote_age_inv_fresh by (simp add: create_fresh)
next
  case (reachable_step s x s')
  then show ?case using quote_age_inv_step by blast
qed

subsection \<open>Invariants of the reachable tables\<close>

lemma ucast_byte_and_255: "(ucast (l :: byte) :: 32 word) AND 0xff = ucast l"
proof -
  have "(ucast l :: 32 word) AND mask 8 = ucast l"
    by (rule bit_word_eqI) (auto simp: bit_simps dest: bit_imp_le_length)
  then show ?thesis by (simp add: mask_eq_exp_minus_1)
qed

lemma pack_quote_age_eq:
  "pack_quote_age age l r = push_bit 16 (ucast age) OR push_bit 8 (ucast l) OR ucast r"
  by (simp add: pack_quote_age_def ucast_byte_and_255)

lemma drop_bit_pack_quote_age: "drop_bit 16 (pack_quote_age age l r) = ucast age"
  unfolding pack_quote_age_eq
  by (rule bit_word_eqI) (auto simp: bit_simps dest: bit_imp_le_length)

lemma take_bit_pack_quote_age:
  "take_bit 16 (pack_quote_age age l r) = push_bit 8 (ucast l) OR ucast r"
  unfolding pack_quote_age_eq
  by (rule bit_word_eqI) (auto simp: bit_simps dest: bit_imp_le_length)

lemma has_code_or: "has_code e (a OR b) = (has_code e a \<or> has_code e b)"
  by (auto simp: has_code_word bit_eq_iff bit_simps)

lemma well_formed_steady: "well_formed s \<Longrightarrow> steady s s' \<Longrightarrow> well_formed s'"
  by (auto simp: well_formed_def steady_def)

lemma well_formed_set_quote_age [simp]: "well_formed (set_quote_age s r c) = well_formed s"
  by (simp add: well_formed_def)

lemma well_formed_uncache [simp]: "well_formed (m4__quote_uncache s) = well_formed s"
  by (simp add: well_formed_def m4__quote_uncache_def)

lemma well_formed_installed_defaults:
  "orig s = default_table \<Longrightarrow> well_formed (installed_defaults s)"
  by (simp add: well_formed_def installed_defaults_def)

lemma well_formed_quotes_installed:
  "well_formed s \<Longrightarrow> well_formed (quotes_installed s lq rq)"
  by (auto simp: well_formed_def quotes_installed_frame strlen_def)

lemma well_formed_comment_installed:
  "well_formed s \<Longrightarrow> well_formed (comment_installed s bc ec)"
  by (auto simp: well_formed_def comment_installed_frame strlen_def)

lemma well_formed_fresh: "well_formed fresh"
  by (simp add: well_formed_def fresh_eq xzalloc_def)

lemma well_formed_step:
  assumes "step s x = Some s'" and "well_formed s"
  shows "well_formed s'"
proof (cases x)
  case (Changesyntax key action chars)
  then obtain rc where 1: "m4_set_syntax s key action chars = Some (rc, s')"
    using assms(1) by auto
  show ?thesis
  proof (cases "key = 0")
    case True
    have s': "s' = set_quote_age (installed_defaults s) True False"
      using 1 True by (simp add: m4_set_syntax_null_key)
    have "orig s = default_table" using assms(2) by (simp add: well_formed_def)
    then show ?thesis unfolding s' by (simp add: well_formed_installed_defaults)
  next
    case False
    show ?thesis
    proof (cases "m4_syntax_code key < 0")
      case True
      then have "s' = s" using 1 False by (auto simp: m4_set_syntax_def split: if_splits)
      then show ?thesis using assms(2) by simp
    next
      case neg: False
      then show ?thesis using m4_set_syntax_verb [OF 1 False] assms(2)
        by (auto intro: well_formed_steady)
    qed
  qed
next
  case (Changequote lq rq)
  then show ?thesis using assms
    by (auto simp: m4_set_quotes_eq well_formed_quotes_installed split: if_splits)
next
  case (Changecom bc ec)
  then show ?thesis using assms
    by (auto simp: m4_set_comment_eq well_formed_comment_installed split: if_splits)
next
  case (Quote_cache obs age quotes)
  then obtain r obs' where "m4__quote_cache s obs age quotes = Some (r, s', obs')"
    using assms(1) by auto
  from quote_cache_frame [OF this] show ?thesis
    using assms(2) by (auto simp: well_formed_def)
qed

lemma well_formed_reachable: "reachable s \<Longrightarrow> well_formed s"
proof (induction rule: reachable.induct)
  case (reachable_create s)
  then show ?case using well_formed_fresh by (simp add: create_fresh)
next
  case (reachable_step s x s')
  then show ?case using well_formed_step by blast
qed

subsection \<open>The syntax age\<close>

lemma syntax_age_step:
  assumes "step s x = Some s'"
  shows "syntax_age s' = (if is_verb x \<and> syntax_age s < 0xffff then syntax_age s + 1
                            else syntax_age s)"
proof (cases x)
  case (Changesyntax key action chars)
  then obtain rc where 1: "m4_set_syntax s key action chars = Some (rc, s')"
    using assms(1) by auto
  show ?thesis
  proof (cases "key = 0")
    case True
    then show ?thesis using 1 Changesyntax
      by (auto simp: m4_set_syntax_null_key syntax_age_set_quote_age installed_defaults_def)
  next
    case False
    show ?thesis
    proof (cases "m4_syntax_code key < 0")
      case True
      then have "s' = s" using 1 False by (auto simp: m4_set_syntax_def split: if_splits)
      then show ?thesis using True Changesyntax by simp
    next
      case neg: False
      then show ?thesis using m4_set_syntax_verb [OF 1 False] Changesyntax False
        by (auto simp: syntax_age_set_quote_age m4__quote_uncache_def steady_def)
    qed
  qed
next
  case (Changequote lq rq)
  then show ?thesis using assms
    by (auto simp: m4_set_quotes_eq syntax_age_set_quote_age quotes_installed_frame
        split: if_splits)
next
  case (Changecom bc ec)
  then show ?thesis using assms
    by (auto simp: m4_set_comment_eq syntax_age_set_quote_age comment_installed_frame
        split: if_splits)
next
  case (Quote_cache obs age quotes)
  then obtain r obs' where "m4__quote_cache s obs age quotes = Some (r, s', obs')"
    using assms(1) by auto
  from quote_cache_frame [OF this] show ?thesis
    using Quote_cache by simp
qed

lemma unat_syntax_age_succ:
  "(a :: 16 word) < 0xffff \<Longrightarrow> unat (a + 1) = Suc (unat a)"
proof -
  assume "a < 0xffff"
  then have "unat a < 65535" by (simp add: word_less_nat_alt)
  then show ?thesis by (simp add: unat_word_ariths)
qed

lemma syntax_age_run_from:
  "run_from s xs = Some s' \<Longrightarrow>
   unat (syntax_age s') = min (unat (syntax_age s) + verb_count xs) 65535"
proof (induction xs arbitrary: s)
  case Nil
  have "unat (syntax_age s) \<le> 65535"
    using unsigned_less [of "syntax_age s", where ?'a = nat] by simp
  then show ?case using Nil by (simp add: verb_count_def)
next
  case (Cons x xs)
  then obtain s1 where 1: "step s x = Some s1" and 2: "run_from s1 xs = Some s'"
    by (auto simp: bind_eq_Some_conv)
  have le: "unat (syntax_age s) \<le> 65535"
    using unsigned_less [of "syntax_age s", where ?'a = nat] by simp
  have lt: "(syntax_age s < 0xffff) = (unat (syntax_age s) < 65535)"
    by (simp add: word_less_nat_alt)
  show ?case
    using Cons.IH [OF 2] syntax_age_step [OF 1] le lt
    by (auto simp: verb_count_def unat_syntax_age_succ min_def split: if_splits)
qed

lemma reachable_run_from: "reachable s \<Longrightarrow> run_from s xs = Some s' \<Longrightarrow> reachable s'"
proof (induction xs arbitrary: s)
  case Nil
  then show ?case by simp
next
  case (Cons x xs)
  then obtain s1 where 1: "step s x = Some s1" and 2: "run_from s1 xs = Some s'"
    by (auto simp: bind_eq_Some_conv)
  show ?case using Cons.IH [OF reachable_step [OF Cons.prems(1) 1] 2] .
qed

lemma reachable_run: "run xs = Some s \<Longrightarrow> reachable s"
  using reachable_run_from [OF reachable_fresh] by (simp add: run_def create_fresh)

lemma quote_age_upper_saturated:
  assumes "reachable s" and "syntax_age s = 0xffff"
  shows "drop_bit 16 (quote_age s) = 0"
proof (cases "quote_age s = 0")
  case True
  then show ?thesis by simp
next
  case False
  then show ?thesis
    using quote_age_inv_reachable [OF assms(1)] assms(2)
    by (auto simp: quote_age_inv_def quotes_safe_def drop_bit_pack_quote_age)
qed

text \<open>
  C7.  After a run of operations from creation, the stored syntax age is the number of
  changesyntax verbs of the run, capped at \<open>0xffff\<close>: it never wraps around.  Once
  \<open>0xffff\<close> verbs have run it is \<open>0xffff\<close>, whatever follows, and the upper 16 bits of
  \<open>quote_age\<close> are zero.
\<close>

theorem syntax_age_saturates:
  assumes "run xs = Some s"
  shows "unat (syntax_age s) = min (verb_count xs) 65535
     \<and> (65535 \<le> verb_count xs \<longrightarrow> syntax_age s = 0xffff \<and> drop_bit 16 (quote_age s) = 0)"
proof -
  have 1: "unat (syntax_age s) = min (verb_count xs) 65535"
    using assms syntax_age_run_from [of fresh xs s]
    by (simp add: run_def create_fresh fresh_eq xzalloc_def)
  have 2: "syntax_age s = 0xffff" if "65535 \<le> verb_count xs"
  proof -
    have "unat (syntax_age s) = unat (0xffff :: 16 word)" using 1 that by simp
    then show ?thesis by (simp only: word_unat_eq_iff)
  qed
  show ?thesis using 1 2 quote_age_upper_saturated [OF reachable_run [OF assms]] by blast
qed


subsection \<open>No assertion fails on a well-formed table\<close>

lemma check_is_single_quotes_total:
  "is_single_quotes s \<longrightarrow> len1 (quote s) = 1 \<and> len2 (quote s) = 1 \<Longrightarrow>
   \<exists>s'. check_is_single_quotes s = Some s'"
  by (auto simp: check_is_single_quotes_def split: prod.splits option.splits bool.splits)

lemma check_is_single_comments_total:
  "is_single_comments s \<longrightarrow> len1 (comm s) = 1 \<and> len2 (comm s) = 1 \<Longrightarrow>
   \<exists>s'. check_is_single_comments s = Some s'"
  by (auto simp: check_is_single_comments_def split: prod.splits option.splits bool.splits)

lemma run_checkers_total:
  assumes "well_formed s"
  shows "\<exists>s'. run_checkers s = Some s'"
proof -
  have 1: "well_formed (check_is_macro_escaped s)"
    using well_formed_steady [OF assms steady_check_is_macro_escaped] .
  then obtain s1 where s1: "check_is_single_quotes (check_is_macro_escaped s) = Some s1"
    using check_is_single_quotes_total [of "check_is_macro_escaped s"]
    by (auto simp: well_formed_def)
  have "well_formed s1"
    using well_formed_steady [OF 1] steady_check_is_single_quotes [OF s1] by blast
  then obtain s2 where "check_is_single_comments s1 = Some s2"
    using check_is_single_comments_total [of s1] by (auto simp: well_formed_def)
  then show ?thesis using s1 by (simp add: run_checkers_def)
qed

lemma subtract_loop_total: "\<exists>s'. subtract_loop s chars code = Some s'"
proof (induction chars arbitrary: s)
  case Nil
  show ?case by simp
next
  case (Cons c chars)
  show ?case
    using Cons.IH by (auto simp: remove_syntax_attribute_def)
qed

lemma subtract_syntax_set_total:
  assumes "well_formed s"
  shows "\<exists>s'. subtract_syntax_set s chars code = Some s'"
proof (cases "deref chars = 0")
  case True
  then show ?thesis by (simp add: subtract_syntax_set_def)
next
  case False
  obtain s1 where s1: "subtract_loop s chars code = Some s1"
    using subtract_loop_total by blast
  have wf: "well_formed s1" using well_formed_steady [OF assms steady_subtract_loop [OF s1]] .
  have "\<exists>s'. subtract_cleanup s1 code = Some s'"
    using check_is_single_quotes_total [of s1] check_is_single_comments_total [of s1] wf
    by (auto simp: subtract_cleanup_def well_formed_def)
  then show ?thesis using s1 False by (simp add: subtract_syntax_set_def)
qed

lemma set_syntax_set_total:
  assumes "well_formed s"
  shows "\<exists>s'. set_syntax_set s chars code = Some s'"
proof -
  have "well_formed (add_loop (s\<lparr>table := (\<lambda>c. set_sweep_entry code (table s c))\<rparr>) chars code)"
    using well_formed_steady [OF well_formed_steady [OF assms steady_table] steady_add_loop] .
  from run_checkers_total [OF this] show ?thesis
    by (simp add: set_syntax_set_def set_sweep)
qed

lemma reset_syntax_set_eq:
  "reset_syntax_set s code
     = run_checkers (s\<lparr>table := (\<lambda>c. reset_sweep_entry code (orig s) c (table s c))\<rparr>)"
  by (simp add: reset_syntax_set_def reset_sweep)

lemma reset_syntax_set_total:
  assumes "well_formed s"
  shows "\<exists>s'. reset_syntax_set s code = Some s'"
  using run_checkers_total [OF well_formed_steady [OF assms steady_table]]
  by (simp add: reset_syntax_set_eq)

lemma m4_set_syntax_total:
  assumes "well_formed s" and "key \<noteq> 0" and "0 \<le> m4_syntax_code key"
    and "action = 43 \<or> action = 45 \<or> action = 61 \<or> action = 0"
  shows "\<exists>s'. m4_set_syntax s key action (Some chars) = Some (m4_syntax_code key, s')"
  using assms(2-4) subtract_syntax_set_total [OF assms(1), of chars "m4_syntax_code key"]
    set_syntax_set_total [OF assms(1), of chars "m4_syntax_code key"]
    reset_syntax_set_total [OF assms(1), of "m4_syntax_code key"]
  by (auto simp: m4_set_syntax_def Let_def)

lemma run_from_replicate_verb_total:
  assumes "key \<noteq> 0" and "0 \<le> m4_syntax_code key"
    and "action = 43 \<or> action = 45 \<or> action = 61 \<or> action = 0"
  shows "well_formed s \<Longrightarrow>
    \<exists>s'. run_from s (replicate n (Changesyntax key action (Some chars))) = Some s'"
proof (induction n arbitrary: s)
  case 0
  show ?case by simp
next
  case (Suc n)
  obtain s1 where 1: "m4_set_syntax s key action (Some chars) = Some (m4_syntax_code key, s1)"
    using m4_set_syntax_total [OF Suc.prems assms] by blast
  then have 2: "step s (Changesyntax key action (Some chars)) = Some s1" by simp
  have "well_formed s1" using well_formed_step [OF 2 Suc.prems] .
  from Suc.IH [OF this] show ?case using 2 by (simp del: step.simps)
qed

lemma verb_count_replicate: "verb_count (replicate n x) = (if is_verb x then n else 0)"
  by (simp add: verb_count_def)

theorem syntax_age_saturates_witness:
  "verb_count (replicate 65535 (Changesyntax 79 43 (Some [120]))) = 65535
   \<and> run (replicate 65535 (Changesyntax 79 43 (Some [120]))) \<noteq> None
   \<and> syntax_age (the (run (replicate 65535 (Changesyntax 79 43 (Some [120]))))) = 0xffff
   \<and> drop_bit 16 (quote_age (the (run (replicate 65535 (Changesyntax 79 43 (Some [120])))))) = 0
   \<and> run (replicate 65536 (Changesyntax 79 43 (Some [120]))) \<noteq> None
   \<and> syntax_age (the (run (replicate 65536 (Changesyntax 79 43 (Some [120]))))) = 0xffff"
proof -
  have c: "m4_syntax_code 79 = 16" by (simp add: m4_syntax_code_def code_defs)
  have v: "is_verb (Changesyntax 79 43 (Some [120]))" by (simp add: c)
  obtain s where s: "run (replicate 65535 (Changesyntax 79 43 (Some [120]))) = Some s"
    using run_from_replicate_verb_total [of 79 43 fresh 65535 "[120]"] well_formed_fresh
    by (auto simp: c run_def create_fresh)
  obtain t where t: "run (replicate 65536 (Changesyntax 79 43 (Some [120]))) = Some t"
    using run_from_replicate_verb_total [of 79 43 fresh 65536 "[120]"] well_formed_fresh
    by (auto simp: c run_def create_fresh)
  show ?thesis
    using syntax_age_saturates [OF s] syntax_age_saturates [OF t] s t v
    by (simp add: verb_count_replicate)
qed

subsection \<open>The full reset and the syntax age\<close>

lemma m4_set_syntax_add:
  "key \<noteq> 0 \<Longrightarrow> 0 \<le> m4_syntax_code key \<Longrightarrow>
   m4_set_syntax s key 43 (Some chars)
     = Some (m4_syntax_code key,
         m4__quote_uncache (set_quote_age (add_syntax_set s chars (m4_syntax_code key)) False True))"
  by (simp add: m4_set_syntax_def Let_def)

lemma quote_age_set_quote_age:
  "quote_age (set_quote_age s r c)
     = (if quotes_safe s (local_syntax_age s r c)
        then pack_quote_age (local_syntax_age s r c) (deref (str1 (quote s)))
               (deref (str2 (quote s)))
        else 0)"
proof -
  have "quotes_safe (s\<lparr>syntax_age := a\<rparr>) age = quotes_safe s age" for a age
    by (rule quotes_safe_cong) simp_all
  then show ?thesis by (simp add: set_quote_age_def Let_def)
qed

lemma uncache_simps [simp]:
  "table (m4__quote_uncache s) = table s"
  "orig (m4__quote_uncache s) = orig s"
  "quote (m4__quote_uncache s) = quote s"
  "comm (m4__quote_uncache s) = comm s"
  "is_single_quotes (m4__quote_uncache s) = is_single_quotes s"
  "is_single_comments (m4__quote_uncache s) = is_single_comments s"
  "is_macro_escaped (m4__quote_uncache s) = is_macro_escaped s"
  "syntax_age (m4__quote_uncache s) = syntax_age s"
  "quote_age (m4__quote_uncache s) = quote_age s"
  by (simp_all add: m4__quote_uncache_def)

lemma installed_defaults_simps [simp]:
  "table (installed_defaults s) = (orig s)(39 := add_code (orig s 39) M4_SYNTAX_RQUOTE,
                        10 := add_code (orig s 10) M4_SYNTAX_ECOMM)"
  "orig (installed_defaults s) = orig s"
  "quote (installed_defaults s) = \<lparr>str1 = [96], len1 = 1, str2 = [39], len2 = 1\<rparr>"
  "comm (installed_defaults s) = \<lparr>str1 = [35], len1 = 1, str2 = [10], len2 = 1\<rparr>"
  "is_single_quotes (installed_defaults s) = True"
  "is_single_comments (installed_defaults s) = True"
  "is_macro_escaped (installed_defaults s) = False"
  "syntax_age (installed_defaults s) = syntax_age s"
  by (simp_all add: installed_defaults_def)

lemma add_syntax_attribute_simps [simp]:
  "table (add_syntax_attribute s ch code) = (table s)(ch := add_code (table s ch) code)"
  "orig (add_syntax_attribute s ch code) = orig s"
  "quote (add_syntax_attribute s ch code) = quote s"
  "comm (add_syntax_attribute s ch code) = comm s"
  "is_single_quotes (add_syntax_attribute s ch code) = is_single_quotes s"
  "is_single_comments (add_syntax_attribute s ch code) = is_single_comments s"
  "is_macro_escaped (add_syntax_attribute s ch code) = is_macro_escaped s"
  "syntax_age (add_syntax_attribute s ch code) = syntax_age s"
  by (simp_all add: add_syntax_attribute_code)

lemma add_loop_simps [simp]:
  "orig (add_loop s chars code) = orig s"
  "quote (add_loop s chars code) = quote s"
  "comm (add_loop s chars code) = comm s"
  "is_single_quotes (add_loop s chars code) = is_single_quotes s"
  "is_single_comments (add_loop s chars code) = is_single_comments s"
  "is_macro_escaped (add_loop s chars code) = is_macro_escaped s"
  "syntax_age (add_loop s chars code) = syntax_age s"
  by (induction chars arbitrary: s; simp)+

lemma add_syntax_set_simps [simp]:
  "orig (add_syntax_set s chars code) = orig s"
  "quote (add_syntax_set s chars code) = quote s"
  "comm (add_syntax_set s chars code) = comm s"
  "is_single_quotes (add_syntax_set s chars code) = is_single_quotes s"
  "is_single_comments (add_syntax_set s chars code) = is_single_comments s"
  "syntax_age (add_syntax_set s chars code) = syntax_age s"
  by (simp_all add: add_syntax_set_def)

lemma table_add_loop_cong:
  "table s = table t \<Longrightarrow> table (add_loop s chars code) = table (add_loop t chars code)"
proof (induction chars arbitrary: s t)
  case Nil
  then show ?case by simp
next
  case (Cons c chars)
  have "table (add_syntax_attribute s c code) = table (add_syntax_attribute t c code)"
    using Cons.prems by simp
  from Cons.IH [OF this] Cons.prems show ?case by simp
qed

lemma table_add_syntax_set:
  "table (add_syntax_set s chars code) = (if deref chars = 0 then table s else table (add_loop s chars code))"
  using table_add_loop_cong [of "s\<lparr>is_macro_escaped := True\<rparr>" s chars code]
  by (auto simp: add_syntax_set_def)

lemma fresh_simps [simp]:
  "table fresh = default_table(39 := 16400, 10 := 33280)"
  "orig fresh = default_table"
  "quote fresh = \<lparr>str1 = [96], len1 = 1, str2 = [39], len2 = 1\<rparr>"
  "comm fresh = \<lparr>str1 = [35], len1 = 1, str2 = [10], len2 = 1\<rparr>"
  "is_single_quotes fresh" "is_single_comments fresh" "\<not> is_macro_escaped fresh"
  "syntax_age fresh = 0" "quote_age fresh = 0x6027"
  by (simp_all add: fresh_eq xzalloc_def)

lemma m4_syntax_code_O: "m4_syntax_code 79 = M4_SYNTAX_OTHER"
  by (simp add: m4_syntax_code_def code_defs)

lemmas run_simps =
  run_def create_fresh m4_set_syntax_null_key m4_set_syntax_add m4_syntax_code_O
  M4_SYNTAX_OTHER_def

text \<open>
  C3, as amended.  \<^verbatim>\<open>set_quote_age\<close> writes the stored counter only when it
  increments it (no reset, a change, and a counter below \<open>0xffff\<close>); with \<open>reset\<close> the
  age 0 goes into \<open>quote_age\<close> alone.  So the full reset leaves the stored counter at
  its value, with the upper 16 bits of \<open>quote_age\<close> zero; and the first changesyntax verb
  after a full reset counts on from the value before the reset: the counter is that value
  plus 1 (or stays \<open>0xffff\<close>), and a non-zero \<open>quote_age\<close> has it in its upper 16 bits.
\<close>

theorem full_reset_keeps_syntax_age:
  "syntax_age (set_quote_age s0 reset change)
     = (if \<not> reset \<and> change \<and> syntax_age s0 < 0xffff then syntax_age s0 + 1
        else syntax_age s0)
   \<and> (m4_set_syntax s 0 action chars = Some (rc, s1) \<longrightarrow>
        syntax_age s1 = syntax_age s
        \<and> drop_bit 16 (quote_age s1) = 0
        \<and> (key \<noteq> 0 \<and> 0 \<le> m4_syntax_code key
             \<and> m4_set_syntax s1 key action' chars' = Some (rc', s2) \<longrightarrow>
             syntax_age s2 = (if syntax_age s < 0xffff then syntax_age s + 1
                              else syntax_age s)
             \<and> (quote_age s2 \<noteq> 0 \<longrightarrow>
                  drop_bit 16 (quote_age s2) = ucast (syntax_age s2))))"
proof (intro conjI impI)
  show "syntax_age (set_quote_age s0 reset change)
     = (if \<not> reset \<and> change \<and> syntax_age s0 < 0xffff then syntax_age s0 + 1
        else syntax_age s0)"
    by (rule syntax_age_set_quote_age)
next
  assume "m4_set_syntax s 0 action chars = Some (rc, s1)"
  then have s1: "s1 = set_quote_age (installed_defaults s) True False"
    by (simp add: m4_set_syntax_null_key)
  show age1: "syntax_age s1 = syntax_age s"
    by (simp add: s1 syntax_age_set_quote_age)
  show "drop_bit 16 (quote_age s1) = 0"
    by (simp add: s1 quote_age_set_quote_age local_syntax_age_def drop_bit_pack_quote_age)
  assume "key \<noteq> 0 \<and> 0 \<le> m4_syntax_code key
             \<and> m4_set_syntax s1 key action' chars' = Some (rc', s2)"
  then obtain t where t: "steady s1 t"
    and s2: "s2 = m4__quote_uncache (set_quote_age t False True)"
    using m4_set_syntax_verb [of s1 key action' chars' rc' s2] by blast
  have aget: "syntax_age t = syntax_age s" using t age1 by (simp add: steady_def)
  show "syntax_age s2 = (if syntax_age s < 0xffff then syntax_age s + 1 else syntax_age s)"
    by (simp add: s2 syntax_age_set_quote_age aget)
  show "drop_bit 16 (quote_age s2) = ucast (syntax_age s2)" if "quote_age s2 \<noteq> 0"
    using that
    by (auto simp: s2 syntax_age_set_quote_age quote_age_set_quote_age local_syntax_age_def
        drop_bit_pack_quote_age split: if_splits)
qed

theorem full_reset_keeps_syntax_age_witness:
  "run [Changesyntax 79 43 (Some [120])] \<noteq> None
   \<and> syntax_age (the (run [Changesyntax 79 43 (Some [120])])) = 1
   \<and> m4_set_syntax (the (run [Changesyntax 79 43 (Some [120])])) 0 0 None
        = Some (0, the (run [Changesyntax 79 43 (Some [120]), Changesyntax 0 0 None]))
   \<and> syntax_age (the (run [Changesyntax 79 43 (Some [120]), Changesyntax 0 0 None])) = 1
   \<and> drop_bit 16 (quote_age (the (run [Changesyntax 79 43 (Some [120]),
        Changesyntax 0 0 None]))) = 0
   \<and> m4_set_syntax (the (run [Changesyntax 79 43 (Some [120]), Changesyntax 0 0 None]))
        79 43 (Some [120])
        = Some (16, the (run [Changesyntax 79 43 (Some [120]), Changesyntax 0 0 None,
             Changesyntax 79 43 (Some [120])]))
   \<and> syntax_age (the (run [Changesyntax 79 43 (Some [120]), Changesyntax 0 0 None,
        Changesyntax 79 43 (Some [120])])) = 2"
proof -
  let ?a = "the (run [Changesyntax 79 43 (Some [120])])"
  let ?b = "the (run [Changesyntax 79 43 (Some [120]), Changesyntax 0 0 None])"
  let ?c = "the (run [Changesyntax 79 43 (Some [120]), Changesyntax 0 0 None,
        Changesyntax 79 43 (Some [120])])"
  have 0: "run [Changesyntax 79 43 (Some [120])] \<noteq> None" by (simp add: run_simps)
  have a: "syntax_age ?a = 1" by (simp add: run_simps syntax_age_set_quote_age)
  have 1: "m4_set_syntax ?a 0 0 None = Some (0, ?b)" by (simp add: run_simps)
  have 2: "m4_set_syntax ?b 79 43 (Some [120]) = Some (16, ?c)" by (simp add: run_simps)
  have k: "(79 :: byte) \<noteq> 0 \<and> 0 \<le> m4_syntax_code 79" by (simp add: run_simps)
  show ?thesis
    using full_reset_keeps_syntax_age [of ?a False False ?a 0 None 0 ?b 79 43 "Some [120]" 16 ?c]
      0 a 1 2 k
    by simp
qed

text \<open>
  The claim as stated fails after one verb: the full reset leaves the stored counter at 1,
  not 0, and the next verb gives a \<open>quote_age\<close> whose upper 16 bits are 2, not 1.
\<close>

theorem full_reset_counterexample:
  "map_option syntax_age (run [Changesyntax 79 43 (Some [120]), Changesyntax 0 0 None])
     = Some 1
   \<and> map_option quote_age_upper
       (run [Changesyntax 79 43 (Some [120]), Changesyntax 0 0 None,
             Changesyntax 79 43 (Some [120])]) = Some 2"
  by (simp add: run_simps syntax_age_set_quote_age quote_age_set_quote_age
     local_syntax_age_def quote_age_upper_def table_add_syntax_set quotes_safe_def
     m4_has_syntax_code has_code_def add_code_def default_table_simps
     M4_SYNTAX_ALPHA_def M4_SYNTAX_NUM_def M4_SYNTAX_OPEN_def M4_SYNTAX_COMMA_def
     M4_SYNTAX_CLOSE_def M4_SYNTAX_SPACE_def M4_SYNTAX_RQUOTE_def M4_SYNTAX_ECOMM_def
     M4_SYNTAX_MASKS_def deref_def drop_bit_pack_quote_age)

subsection \<open>An empty left quote\<close>

lemma has_code_or_entry: "has_code (x OR y) t = (has_code x t \<or> has_code y t)"
  by (auto simp: has_code_word bit_eq_iff bit_simps)

lemma has_code_and_const:
  "(word_of_int c :: ushort) AND word_of_int t = 0 \<Longrightarrow> \<not> has_code (e AND word_of_int c) t"
  by (simp add: has_code_word and.assoc)

lemma has_code_and_not:
  "(word_of_int m :: ushort) AND word_of_int t = 0 \<Longrightarrow>
   has_code (e AND NOT (word_of_int m)) t = has_code e t"
  by (auto simp: has_code_word bit_eq_iff bit_simps)

lemma has_code_and_not_same: "\<not> has_code (e AND NOT (word_of_int m)) m"
  by (auto simp: has_code_word bit_eq_iff bit_simps)

lemma has_code_add_basis:
  "k AND M4_SYNTAX_MASKS = 0 \<Longrightarrow> (0xC000 :: ushort) AND word_of_int t = 0 \<Longrightarrow>
   has_code (add_code e k) t = has_code (word_of_int k) t"
  using has_code_and_const [of 49152 t e]
  by (simp add: add_code_word has_code_or_entry)

lemma has_code_add_basis_mask:
  "k AND M4_SYNTAX_MASKS = 0 \<Longrightarrow> (word_of_int k :: ushort) AND word_of_int m = 0 \<Longrightarrow>
   (word_of_int m :: ushort) AND 0xC000 = word_of_int m \<Longrightarrow>
   has_code (add_code e k) m = has_code e m"
  apply (simp add: add_code_word has_code_or_entry)
  apply (auto simp: has_code_word bit_eq_iff bit_simps)
  done

lemma has_code_add_mask:
  "m AND M4_SYNTAX_MASKS \<noteq> 0 \<Longrightarrow>
   has_code (add_code e m) t = (has_code e t \<or> has_code (word_of_int m) t)"
  by (simp add: add_code_word has_code_or_entry)

lemma has_code_remove:
  "(word_of_int m :: ushort) AND word_of_int t = 0 \<Longrightarrow>
   has_code (remove_code e m) t = has_code e t"
  by (simp add: remove_code_word has_code_and_not)

lemma has_code_remove_same: "\<not> has_code (remove_code e m) m"
  by (simp add: remove_code_word has_code_and_not_same)

lemma basis_code_default_syntax: "basis_code (default_syntax c)"
  by (simp add: basis_code_def default_syntax_def)

lemma uint_default_table: "uint (default_table c) = default_syntax c"
  using basis_code_default_syntax [of c]
  by (auto simp: default_table_def basis_code_def code_defs)

lemma basis_code_not_lquote: "basis_code k \<Longrightarrow> k \<noteq> M4_SYNTAX_LQUOTE \<Longrightarrow> \<not> has_code (word_of_int k) M4_SYNTAX_LQUOTE"
  by (auto simp: basis_code_def has_code_def code_defs)



lemma deref_cstr [simp]: "deref (cstr xs) = deref xs"
  by (cases xs) (auto simp: cstr_def deref_def)

lemma basis_code_no_masks: "basis_code k \<Longrightarrow> k AND M4_SYNTAX_MASKS = 0"
  by (auto simp: basis_code_def code_defs)

lemma basis_code_has_code:
  "basis_code k \<Longrightarrow> basis_code t \<Longrightarrow> has_code (word_of_int k) t = (k = t \<and> t \<noteq> 0)"
  unfolding basis_code_def has_code_def code_defs by (elim disjE | simp)+







subsection \<open>What the checkers establish\<close>

lemma m4_has_syntax_cong: "table s' = table s \<Longrightarrow> m4_has_syntax s' = m4_has_syntax s"
  by (simp add: m4_has_syntax_def fun_eq_iff)

lemma escape_scan_flag:
  "is_macro_escaped (escape_scan s n)
     = (is_macro_escaped s \<or> (\<exists>k<n. m4_has_syntax s (of_nat k) M4_SYNTAX_ESCAPE))"
  by (induction n) (auto simp: less_Suc_eq)

lemma check_is_macro_escaped_flag:
  "is_macro_escaped (check_is_macro_escaped s) = (\<exists>b. m4_has_syntax s b M4_SYNTAX_ESCAPE)"
proof -
  have "(\<exists>k<256. m4_has_syntax s (of_nat k) M4_SYNTAX_ESCAPE)
      = (\<exists>b. m4_has_syntax s b M4_SYNTAX_ESCAPE)"
  proof
    assume "\<exists>b. m4_has_syntax s b M4_SYNTAX_ESCAPE"
    then obtain b where "m4_has_syntax s b M4_SYNTAX_ESCAPE" ..
    then have "unat b < 256 \<and> m4_has_syntax s (of_nat (unat b)) M4_SYNTAX_ESCAPE"
      by (simp add: unat_byte_less)
    then show "\<exists>k<256. m4_has_syntax s (of_nat k) M4_SYNTAX_ESCAPE" by blast
  qed blast
  moreover have "m4_has_syntax (s\<lparr>is_macro_escaped := False\<rparr>) = m4_has_syntax s"
    by (rule m4_has_syntax_cong) simp
  ultimately show ?thesis
    by (simp add: check_is_macro_escaped_def escape_scan_flag)
qed




lemma single_scan_Suc:
  "single_scan s cl cr (Suc n) (l0, r0, f0) =
    (if m4_has_syntax s (of_nat n) cl \<and> l0 \<noteq> None then (l0, r0, False)
     else if m4_has_syntax s (of_nat n) cr \<and> r0 \<noteq> None
       then (if m4_has_syntax s (of_nat n) cl then Some (of_nat n) else l0, r0, False)
     else single_scan s cl cr n
            (if m4_has_syntax s (of_nat n) cl then Some (of_nat n) else l0,
             if m4_has_syntax s (of_nat n) cr then Some (of_nat n) else r0, f0))"
  by (simp only: single_scan.simps Let_def)

declare single_scan.simps(2) [simp del]

lemma single_scan_second_left:
  "m4_has_syntax s (of_nat n) cl \<and> l0 \<noteq> None \<Longrightarrow>
   single_scan s cl cr (Suc n) (l0, r0, f0) = (l0, r0, False)"
  by (simp only: single_scan_Suc simp_thms if_True if_False)

lemma single_scan_second_right:
  "\<not> (m4_has_syntax s (of_nat n) cl \<and> l0 \<noteq> None) \<Longrightarrow>
   m4_has_syntax s (of_nat n) cr \<and> r0 \<noteq> None \<Longrightarrow>
   single_scan s cl cr (Suc n) (l0, r0, f0)
     = (if m4_has_syntax s (of_nat n) cl then Some (of_nat n) else l0, r0, False)"
  by (simp only: single_scan_Suc simp_thms if_True if_False)

lemma single_scan_next:
  "\<not> (m4_has_syntax s (of_nat n) cl \<and> l0 \<noteq> None) \<Longrightarrow>
   \<not> (m4_has_syntax s (of_nat n) cr \<and> r0 \<noteq> None) \<Longrightarrow>
   single_scan s cl cr (Suc n) (l0, r0, f0)
     = single_scan s cl cr n
            (if m4_has_syntax s (of_nat n) cl then Some (of_nat n) else l0,
             if m4_has_syntax s (of_nat n) cr then Some (of_nat n) else r0, f0)"
  by (simp only: single_scan_Suc simp_thms if_True if_False)



lemma found_ok_step:
  "found_ok s cl cr (l0, r0, f0) \<Longrightarrow>
   found_ok s cl cr (if m4_has_syntax s c cl then Some c else l0,
     if m4_has_syntax s c cr then Some c else r0, f1)"
  by (simp add: found_ok_def)

lemma found_ok_step_l:
  "found_ok s cl cr (l0, r0, f0) \<Longrightarrow>
   found_ok s cl cr (if m4_has_syntax s c cl then Some c else l0, r0, f1)"
  by (simp add: found_ok_def)

lemma found_ok_flag:
  "found_ok s cl cr (l0, r0, f0) \<Longrightarrow> found_ok s cl cr (l0, r0, f1)"
  by (simp add: found_ok_def)


lemma found_ok_single_scan_Suc: assumes IH: "\<And>acc. found_ok s cl cr acc \<Longrightarrow> found_ok s cl cr (single_scan s cl cr n acc)"
  and ok: "found_ok s cl cr (l0, r0, f0)"
  shows "found_ok s cl cr (single_scan s cl cr (Suc n) (l0, r0, f0))"
proof -
  consider (a) "m4_has_syntax s (of_nat n) cl \<and> l0 \<noteq> None"
    | (b) "\<not> (m4_has_syntax s (of_nat n) cl \<and> l0 \<noteq> None)"
          "m4_has_syntax s (of_nat n) cr \<and> r0 \<noteq> None"
    | (c) "\<not> (m4_has_syntax s (of_nat n) cl \<and> l0 \<noteq> None)"
          "\<not> (m4_has_syntax s (of_nat n) cr \<and> r0 \<noteq> None)"
    by blast
  then show ?thesis
  proof cases
    case a
    show ?thesis
      unfolding single_scan_second_left [OF a] by (rule found_ok_flag [OF ok])
  next
    case b
    show ?thesis
      unfolding single_scan_second_right [OF b] by (rule found_ok_step_l [OF ok])
  next
    case c
    show ?thesis
      unfolding single_scan_next [OF c] by (rule IH) (rule found_ok_step [OF ok])
  qed
qed


lemma found_ok_single_scan:
  "found_ok s cl cr acc \<Longrightarrow> found_ok s cl cr (single_scan s cl cr n acc)"
proof (induction n arbitrary: acc)
  case 0
  then show ?case by simp
next
  case (Suc n)
  obtain l0 r0 f0 where acc: "acc = (l0, r0, f0)" by (cases acc) auto
  have ok: "found_ok s cl cr (l0, r0, f0)" using Suc.prems unfolding acc .
  have "found_ok s cl cr (single_scan s cl cr (Suc n) (l0, r0, f0))"
    by (rule found_ok_single_scan_Suc) (rule Suc.IH, assumption, rule ok)
  then show ?case unfolding acc .
qed

lemma single_scan_found:
  assumes "single_scan s cl cr n (None, None, True) = (Some x, Some y, f)"
  shows "m4_has_syntax s x cl \<and> m4_has_syntax s y cr"
  using found_ok_single_scan [of s cl cr "(None, None, True)" n] assms
  by (simp add: found_ok_def)

lemma deref_poke: "xs \<noteq> [] \<Longrightarrow> deref (poke xs v) = v"
  by (cases xs) (simp_all add: deref_def poke_def)

lemma check_is_single_quotes_inv:
  assumes "check_is_single_quotes s = Some s'" and "well_formed s"
  shows "single_quotes_inv s'"
proof (cases "is_single_quotes s")
  case False
  then show ?thesis using assms(1) by (simp add: check_is_single_quotes_def single_quotes_inv_def)
next
  case True
  then have len: "len1 (quote s) = 1" "len2 (quote s) = 1"
    and ne: "str1 (quote s) \<noteq> []" "str2 (quote s) \<noteq> []"
    using assms(2) by (auto simp: well_formed_def)
  show ?thesis
  proof (cases "m4_has_syntax s (deref (str1 (quote s))) M4_SYNTAX_LQUOTE
           \<and> m4_has_syntax s (deref (str2 (quote s))) M4_SYNTAX_RQUOTE")
    case carries: True
    then have "s' = s" using assms(1) True len by (simp add: check_is_single_quotes_def)
    then show ?thesis using carries len by (simp add: single_quotes_inv_def)
  next
    case False
    obtain l r f where scan:
      "single_scan s M4_SYNTAX_LQUOTE M4_SYNTAX_RQUOTE 256 (None, None, True) = (l, r, f)"
      by (cases "single_scan s M4_SYNTAX_LQUOTE M4_SYNTAX_RQUOTE 256 (None, None, True)") auto
    show ?thesis
    proof (cases "\<exists>x y. l = Some x \<and> r = Some y \<and> f")
      case True
      then obtain x y where xy: "l = Some x" "r = Some y" "f" by blast
      have s': "s' = s\<lparr>quote := (quote s)\<lparr>str1 := poke (str1 (quote s)) x,
                     str2 := poke (str2 (quote s)) y\<rparr>\<rparr>"
        using assms(1) \<open>is_single_quotes s\<close> len False scan xy
        by (simp add: check_is_single_quotes_def)
      have "m4_has_syntax s' = m4_has_syntax s"
        by (rule m4_has_syntax_cong) (simp add: s')
      then show ?thesis using single_scan_found [OF scan [unfolded xy]] len ne
        by (simp add: single_quotes_inv_def s' deref_poke)
    next
      case nf: False
      have "s' = s\<lparr>is_single_quotes := False\<rparr>"
        using assms(1) \<open>is_single_quotes s\<close> len False scan nf
        by (auto simp: check_is_single_quotes_def split: option.splits bool.splits)
      then show ?thesis by (simp add: single_quotes_inv_def)
    qed
  qed
qed



lemma check_is_single_comments_inv:
  assumes "check_is_single_comments s = Some s'" and "well_formed s"
  shows "single_comments_inv s'"
proof (cases "is_single_comments s")
  case False
  then show ?thesis using assms(1)
    by (simp add: check_is_single_comments_def single_comments_inv_def)
next
  case True
  then have len: "len1 (comm s) = 1" "len2 (comm s) = 1"
    and ne: "str1 (comm s) \<noteq> []" "str2 (comm s) \<noteq> []"
    using assms(2) by (auto simp: well_formed_def)
  show ?thesis
  proof (cases "m4_has_syntax s (deref (str1 (comm s))) M4_SYNTAX_BCOMM
           \<and> m4_has_syntax s (deref (str2 (comm s))) M4_SYNTAX_ECOMM")
    case carries: True
    then have "s' = s" using assms(1) True len by (simp add: check_is_single_comments_def)
    then show ?thesis using carries len by (simp add: single_comments_inv_def)
  next
    case False
    obtain l r f where scan:
      "single_scan s M4_SYNTAX_BCOMM M4_SYNTAX_ECOMM 256 (None, None, True) = (l, r, f)"
      by (cases "single_scan s M4_SYNTAX_BCOMM M4_SYNTAX_ECOMM 256 (None, None, True)") auto
    show ?thesis
    proof (cases "\<exists>x y. l = Some x \<and> r = Some y \<and> f")
      case True
      then obtain x y where xy: "l = Some x" "r = Some y" "f" by blast
      have s': "s' = s\<lparr>comm := (comm s)\<lparr>str1 := poke (str1 (comm s)) x,
                     str2 := poke (str2 (comm s)) y\<rparr>\<rparr>"
        using assms(1) \<open>is_single_comments s\<close> len False scan xy
        by (simp add: check_is_single_comments_def)
      have "m4_has_syntax s' = m4_has_syntax s"
        by (rule m4_has_syntax_cong) (simp add: s')
      then show ?thesis using single_scan_found [OF scan [unfolded xy]] len ne
        by (simp add: single_comments_inv_def s' deref_poke)
    next
      case nf: False
      have "s' = s\<lparr>is_single_comments := False\<rparr>"
        using assms(1) \<open>is_single_comments s\<close> len False scan nf
        by (auto simp: check_is_single_comments_def split: option.splits bool.splits)
      then show ?thesis by (simp add: single_comments_inv_def)
    qed
  qed
qed

lemma check_is_single_quotes_frame:
  "check_is_single_quotes s = Some s' \<Longrightarrow>
   comm s' = comm s \<and> is_single_comments s' = is_single_comments s
   \<and> is_macro_escaped s' = is_macro_escaped s \<and> table s' = table s"
  by (auto simp: check_is_single_quotes_def split: if_splits prod.splits option.splits bool.splits)

lemma check_is_single_comments_frame:
  "check_is_single_comments s = Some s' \<Longrightarrow>
   quote s' = quote s \<and> is_single_quotes s' = is_single_quotes s
   \<and> is_macro_escaped s' = is_macro_escaped s \<and> table s' = table s"
  by (auto simp: check_is_single_comments_def split: if_splits prod.splits option.splits bool.splits)

lemma run_checkers_establishes:
  assumes "run_checkers s = Some t" and "well_formed s"
  shows "table t = table s"
    and "is_macro_escaped t = (\<exists>b. m4_has_syntax s b M4_SYNTAX_ESCAPE)"
    and "single_quotes_inv t" and "single_comments_inv t"
proof -
  obtain s2 where 1: "check_is_single_quotes (check_is_macro_escaped s) = Some s2"
    and 2: "check_is_single_comments s2 = Some t"
    using assms(1) by (auto simp: run_checkers_def bind_eq_Some_conv)
  have wf1: "well_formed (check_is_macro_escaped s)"
    using well_formed_steady [OF assms(2) steady_check_is_macro_escaped] .
  have wf2: "well_formed s2"
    using well_formed_steady [OF wf1] steady_check_is_single_quotes [OF 1] by blast
  note f1 = check_is_single_quotes_frame [OF 1]
  note f2 = check_is_single_comments_frame [OF 2]
  show t: "table t = table s" using f1 f2 by simp
  show "is_macro_escaped t = (\<exists>b. m4_has_syntax s b M4_SYNTAX_ESCAPE)"
    using f1 f2 by (simp add: check_is_macro_escaped_flag)
  have "single_quotes_inv s2" using check_is_single_quotes_inv [OF 1 wf1] .
  then show "single_quotes_inv t"
    using f2 by (simp add: single_quotes_inv_def m4_has_syntax_def)
  show "single_comments_inv t" using check_is_single_comments_inv [OF 2 wf2] .
qed

subsection \<open>The reset verb\<close>

lemma reset_sweep_entry_word:
  "reset_sweep_entry c default_table b e =
    (if c = M4_SYNTAX_RQUOTE then (if b = 39 then e OR 0x4000 else e AND NOT 0x4000)
     else if c = M4_SYNTAX_ECOMM then (if b = 10 then e OR 0x8000 else e AND NOT 0x8000)
     else if default_syntax b = c \<or> has_code e c
       then (e AND 0xC000) OR word_of_int (default_syntax b)
     else e)"
proof -
  define k where "k = default_syntax b"
  have k: "add_code e k = (e AND 0xC000) OR word_of_int k"
    using basis_code_no_masks [OF basis_code_default_syntax [of b]]
    by (simp add: add_code_word k_def)
  have r: "add_code e M4_SYNTAX_RQUOTE = e OR 0x4000"
    "remove_code e M4_SYNTAX_RQUOTE = e AND NOT 0x4000"
    "add_code e M4_SYNTAX_ECOMM = e OR 0x8000"
    "remove_code e M4_SYNTAX_ECOMM = e AND NOT 0x8000"
    by (simp_all add: add_code_word remove_code_word code_defs)
  show ?thesis
    unfolding reset_sweep_entry_def uint_default_table k_def [symmetric] k
    by (auto simp: r)
qed

lemma reset_sweep_entry_rquote:
  "has_code (reset_sweep_entry M4_SYNTAX_RQUOTE default_table b e) M4_SYNTAX_RQUOTE = (b = 39)"
  by (simp add: reset_sweep_entry_def has_code_add_mask has_code_remove_same)
     (simp add: has_code_def code_defs)

lemma reset_sweep_entry_ecomm:
  "has_code (reset_sweep_entry M4_SYNTAX_ECOMM default_table b e) M4_SYNTAX_ECOMM = (b = 10)"
  by (simp add: reset_sweep_entry_def has_code_add_mask has_code_remove_same)
     (simp add: has_code_def code_defs)

lemma default_syntax_lquote: "(default_syntax b = 4) = (b = 96)"
  by (simp add: default_syntax_def code_defs)

lemma reset_sweep_entry_lquote:
  "has_code (reset_sweep_entry M4_SYNTAX_LQUOTE default_table b e) M4_SYNTAX_LQUOTE = (b = 96)"
proof -
  have L: "basis_code M4_SYNTAX_LQUOTE" by (simp add: basis_code_def)
  have 1: "has_code (add_code e (default_syntax b)) M4_SYNTAX_LQUOTE
      = (default_syntax b = M4_SYNTAX_LQUOTE)"
    using has_code_add_basis [OF basis_code_no_masks [OF basis_code_default_syntax [of b]],
        of M4_SYNTAX_LQUOTE e]
      basis_code_has_code [OF basis_code_default_syntax [of b] L]
    by (simp add: M4_SYNTAX_LQUOTE_def)
  show ?thesis
    using 1 by (auto simp: reset_sweep_entry_def uint_default_table default_syntax_lquote
        M4_SYNTAX_LQUOTE_def M4_SYNTAX_RQUOTE_def M4_SYNTAX_ECOMM_def)
qed


subsection \<open>The single-quotes flag\<close>

lemma m4_syntax_code_range:
  "m4_syntax_code key = - 1 \<or> valid_code (m4_syntax_code key)"
  by (simp add: m4_syntax_code_def valid_code_def basis_code_def)

lemma valid_code_m4_syntax_code: "0 \<le> m4_syntax_code key \<Longrightarrow> valid_code (m4_syntax_code key)"
  using m4_syntax_code_range [of key] by auto

lemma uint_basis_code: "basis_code k \<Longrightarrow> uint (word_of_int k :: ushort) = k"
  by (auto simp: basis_code_def code_defs)

lemma basis_part_add_basis:
  "basis_code k \<Longrightarrow> add_code e k AND 0x3FFF = word_of_int k"
proof -
  assume k: "basis_code k"
  have "(word_of_int k :: ushort) AND 0x3FFF = word_of_int k"
    using k by (auto simp: basis_code_def code_defs)
  moreover have "(e AND 0xC000) AND 0x3FFF = 0"
    by (simp add: and.assoc)
  ultimately show ?thesis
    using basis_code_no_masks [OF k] by (simp add: add_code_word bit.conj_disj_distrib2)
qed

lemma basis_part_add_mask:
  "c = M4_SYNTAX_RQUOTE \<or> c = M4_SYNTAX_ECOMM \<Longrightarrow> add_code e c AND 0x3FFF = e AND 0x3FFF"
  by (auto simp: add_code_word code_defs bit.conj_disj_distrib2)

lemma basis_part_remove:
  "c = M4_SYNTAX_RQUOTE \<or> c = M4_SYNTAX_ECOMM \<Longrightarrow> remove_code e c AND 0x3FFF = e AND 0x3FFF"
  by (auto simp: remove_code_word code_defs and.assoc)

lemma entry_ok_add: "valid_code c \<Longrightarrow> entry_ok e \<Longrightarrow> entry_ok (add_code e c)"
  by (auto simp: valid_code_def entry_ok_def basis_part_add_basis uint_basis_code
      basis_part_add_mask)

lemma entry_ok_remove:
  "c = M4_SYNTAX_RQUOTE \<or> c = M4_SYNTAX_ECOMM \<Longrightarrow> entry_ok e \<Longrightarrow> entry_ok (remove_code e c)"
  by (simp add: entry_ok_def basis_part_remove)

lemma entry_ok_default_table: "entry_ok (default_table b)"
proof -
  have "(word_of_int (default_syntax b) :: ushort) AND 0x3FFF = word_of_int (default_syntax b)"
    using basis_code_default_syntax [of b] by (auto simp: basis_code_def code_defs)
  then show ?thesis
    using basis_code_default_syntax [of b]
    by (simp add: entry_ok_def default_table_def uint_basis_code)
qed

lemma has_code_basis:
  assumes "entry_ok e" and "basis_code t"
  shows "has_code e t = (uint (e AND 0x3FFF) = t \<and> t \<noteq> 0)"
proof -
  have t: "(word_of_int t :: ushort) AND 0x3FFF = word_of_int t"
    using assms(2) by (auto simp: basis_code_def code_defs)
  have "e AND word_of_int t = (e AND 0x3FFF) AND word_of_int t"
    by (metis t and.assoc and.commute)
  then have "has_code e t = has_code (e AND 0x3FFF) t"
    by (simp add: has_code_word)
  also have "\<dots> = has_code (word_of_int (uint (e AND 0x3FFF))) t" by simp
  also have "\<dots> = (uint (e AND 0x3FFF) = t \<and> t \<noteq> 0)"
    using assms by (intro basis_code_has_code) (simp_all add: entry_ok_def)
  finally show ?thesis .
qed

lemma has_code_exclusive:
  "entry_ok e \<Longrightarrow> basis_code t \<Longrightarrow> basis_code u \<Longrightarrow> t \<noteq> u \<Longrightarrow>
   has_code e t \<Longrightarrow> \<not> has_code e u"
  by (simp add: has_code_basis)


subsection \<open>Every entry has one basis category\<close>

lemma table_ok_cong: "orig s' = orig s \<Longrightarrow> table s' = table s \<Longrightarrow> table_ok s' = table_ok s"
  by (simp add: table_ok_def)

lemma valid_code_mask: "valid_code c \<Longrightarrow> c AND M4_SYNTAX_MASKS \<noteq> 0 \<Longrightarrow>
  c = M4_SYNTAX_RQUOTE \<or> c = M4_SYNTAX_ECOMM"
  using basis_code_no_masks [of c] by (auto simp: valid_code_def)

lemma valid_code_simps [simp]:
  "valid_code M4_SYNTAX_OTHER" "valid_code M4_SYNTAX_LQUOTE" "valid_code M4_SYNTAX_RQUOTE"
  "valid_code M4_SYNTAX_BCOMM" "valid_code M4_SYNTAX_ECOMM"
  by (simp_all add: valid_code_def basis_code_def)

lemma valid_code_default: "valid_code (uint (default_table b))"
  by (simp add: uint_default_table valid_code_def basis_code_default_syntax)

lemma table_ok_add_syntax_attribute:
  "table_ok s \<Longrightarrow> valid_code c \<Longrightarrow> table_ok (add_syntax_attribute s ch c)"
  by (simp add: table_ok_def add_syntax_attribute_code entry_ok_add)

lemma table_ok_remove_syntax_attribute:
  "remove_syntax_attribute s ch c = Some s' \<Longrightarrow> valid_code c \<Longrightarrow> table_ok s \<Longrightarrow>
   table_ok s'"
  using valid_code_mask [of c]
  by (auto simp: remove_syntax_attribute_def table_ok_def remove_code_def [symmetric]
      entry_ok_remove split: if_splits)

lemma table_ok_add_loop: "table_ok s \<Longrightarrow> valid_code c \<Longrightarrow> table_ok (add_loop s chars c)"
  by (induction chars arbitrary: s) (simp_all add: table_ok_add_syntax_attribute)

lemma table_ok_add_syntax_set:
  "table_ok s \<Longrightarrow> valid_code c \<Longrightarrow> table_ok (add_syntax_set s chars c)"
proof -
  assume a: "table_ok s" "valid_code c"
  have "table_ok (s\<lparr>is_macro_escaped := True\<rparr>) = table_ok s"
    by (rule table_ok_cong) simp_all
  then show ?thesis using a by (simp add: add_syntax_set_def table_ok_add_loop)
qed

lemma table_ok_subtract_loop:
  "subtract_loop s chars c = Some s' \<Longrightarrow> valid_code c \<Longrightarrow> table_ok s \<Longrightarrow> table_ok s'"
proof (induction chars arbitrary: s)
  case Nil
  then show ?case by simp
next
  case (Cons a chars)
  show ?case
  proof (cases "a = 0")
    case True
    then show ?thesis using Cons.prems by simp
  next
    case False
    then obtain s1 where 1: "(if c AND M4_SYNTAX_MASKS \<noteq> 0 then remove_syntax_attribute s a c
        else if m4_has_syntax s a c then Some (add_syntax_attribute s a M4_SYNTAX_OTHER)
        else Some s) = Some s1" and 2: "subtract_loop s1 chars c = Some s'"
      using Cons.prems(1) by (auto simp: bind_eq_Some_conv)
    have "table_ok s1" using 1 Cons.prems(2,3)
      by (auto split: if_splits intro: table_ok_remove_syntax_attribute
          table_ok_add_syntax_attribute)
    from Cons.IH [OF 2 Cons.prems(2) this] show ?thesis .
  qed
qed

lemma table_ok_check_is_macro_escaped: "table_ok (check_is_macro_escaped s) = table_ok s"
  by (rule table_ok_cong) simp_all

lemma table_ok_recheck_macro_escaped: "table_ok (recheck_macro_escaped s) = table_ok s"
  by (rule table_ok_cong) simp_all

lemma table_ok_check_is_single_quotes:
  "check_is_single_quotes s = Some s' \<Longrightarrow> table_ok s' = table_ok s"
  using steady_check_is_single_quotes [of s s']
  by (auto intro!: table_ok_cong simp: steady_def)

lemma table_ok_check_is_single_comments:
  "check_is_single_comments s = Some s' \<Longrightarrow> table_ok s' = table_ok s"
  using steady_check_is_single_comments [of s s']
  by (auto intro!: table_ok_cong simp: steady_def)

lemma table_ok_run_checkers: "run_checkers s = Some s' \<Longrightarrow> table_ok s' = table_ok s"
  using steady_run_checkers [of s s'] by (auto intro!: table_ok_cong simp: steady_def)

lemma table_ok_subtract_cleanup:
  "subtract_cleanup s c = Some s' \<Longrightarrow> table_ok s' = table_ok s"
  by (auto simp: subtract_cleanup_def table_ok_check_is_macro_escaped
      table_ok_check_is_single_quotes table_ok_check_is_single_comments split: if_splits)

lemma entry_ok_set_sweep_entry:
  "valid_code c \<Longrightarrow> entry_ok e \<Longrightarrow> entry_ok (set_sweep_entry c e)"
  by (auto simp: set_sweep_entry_def entry_ok_remove entry_ok_add)

lemma entry_ok_reset_sweep_entry:
  "valid_code c \<Longrightarrow> entry_ok e \<Longrightarrow> entry_ok (reset_sweep_entry c default_table b e)"
  by (auto simp: reset_sweep_entry_def entry_ok_remove entry_ok_add valid_code_default)

lemma entry_ok_delimiter_sweep_entry:
  "valid_code cl \<Longrightarrow> cr = M4_SYNTAX_RQUOTE \<or> cr = M4_SYNTAX_ECOMM \<Longrightarrow> entry_ok e \<Longrightarrow>
   entry_ok (delimiter_sweep_entry cl cr default_table b e)"
  by (auto simp: delimiter_sweep_entry_def Let_def entry_ok_remove entry_ok_add
      valid_code_default)

lemma table_ok_installed_defaults: "orig s = default_table \<Longrightarrow> table_ok (installed_defaults s)"
  by (simp add: table_ok_def installed_defaults_def entry_ok_default_table entry_ok_add)

lemma table_ok_quotes_installed: "table_ok s \<Longrightarrow> table_ok (quotes_installed s lq rq)"
proof -
  assume a: "table_ok s"
  have "table_ok (quotes_swept (store_quotes s lq rq))"
    using a by (simp add: table_ok_def quotes_swept_def entry_ok_delimiter_sweep_entry)
  then have "table_ok (install_quotes (quotes_swept (store_quotes s lq rq)))"
    by (simp add: install_quotes_def table_ok_add_syntax_attribute)
  then show ?thesis by (simp add: quotes_installed_def table_ok_recheck_macro_escaped)
qed

lemma table_ok_comment_installed: "table_ok s \<Longrightarrow> table_ok (comment_installed s bc ec)"
proof -
  assume a: "table_ok s"
  have "table_ok (comment_swept (store_comment s bc ec))"
    using a by (simp add: table_ok_def comment_swept_def entry_ok_delimiter_sweep_entry)
  then have "table_ok (install_comment (comment_swept (store_comment s bc ec)))"
    by (simp add: install_comment_def table_ok_add_syntax_attribute)
  then show ?thesis by (simp add: comment_installed_def table_ok_recheck_macro_escaped)
qed

lemma table_ok_set_quote_age [simp]: "table_ok (set_quote_age s r c) = table_ok s"
  by (rule table_ok_cong) simp_all

lemma table_ok_uncache [simp]: "table_ok (m4__quote_uncache s) = table_ok s"
  by (rule table_ok_cong) simp_all

lemma table_ok_verbs:
  assumes "table_ok s" and "valid_code c"
  shows "table_ok (add_syntax_set s chars c)"
    and "subtract_syntax_set s chars c = Some s' \<Longrightarrow> table_ok s'"
    and "set_syntax_set s chars c = Some s' \<Longrightarrow> table_ok s'"
    and "reset_syntax_set s c = Some s' \<Longrightarrow> table_ok s'"
proof -
  have o: "orig s = default_table" using assms(1) by (simp add: table_ok_def)
  show "table_ok (add_syntax_set s chars c)"
    using assms by (rule table_ok_add_syntax_set)
  show "table_ok s'" if "subtract_syntax_set s chars c = Some s'"
    using that assms table_ok_subtract_loop [of s chars c] table_ok_subtract_cleanup [of _ c s']
    by (auto simp: subtract_syntax_set_def bind_eq_Some_conv split: if_splits)
  have 1: "table_ok (s\<lparr>table := (\<lambda>b. set_sweep_entry c (table s b))\<rparr>)"
    using assms by (simp add: table_ok_def entry_ok_set_sweep_entry)
  show "table_ok s'" if "set_syntax_set s chars c = Some s'"
    using that table_ok_add_loop [OF 1 assms(2), of chars] table_ok_run_checkers [of _ s']
    by (auto simp: set_syntax_set_def set_sweep)
  have 2: "table_ok (s\<lparr>table := (\<lambda>b. reset_sweep_entry c (orig s) b (table s b))\<rparr>)"
    using assms by (simp add: table_ok_def entry_ok_reset_sweep_entry)
  show "table_ok s'" if "reset_syntax_set s c = Some s'"
    using that 2 table_ok_run_checkers [of _ s'] by (auto simp: reset_syntax_set_eq)
qed

lemma table_ok_step:
  assumes "step s x = Some s'" and "table_ok s"
  shows "table_ok s'"
proof (cases x)
  case (Changesyntax key action chars)
  then obtain rc where 1: "m4_set_syntax s key action chars = Some (rc, s')"
    using assms(1) by auto
  have o: "orig s = default_table" using assms(2) by (simp add: table_ok_def)
  show ?thesis
  proof (cases "key = 0")
    case True
    then show ?thesis using 1 o
      by (auto simp: m4_set_syntax_null_key table_ok_installed_defaults)
  next
    case False
    show ?thesis
    proof (cases "m4_syntax_code key < 0")
      case True
      then have "s' = s" using 1 False by (auto simp: m4_set_syntax_def split: if_splits)
      then show ?thesis using assms(2) by simp
    next
      case neg: False
      then have v: "valid_code (m4_syntax_code key)"
        by (intro valid_code_m4_syntax_code) simp
      from 1 False neg obtain s1 where
        s1: "(if action = 43 then Some (add_syntax_set s (the chars) (m4_syntax_code key))
          else if action = 45 then subtract_syntax_set s (the chars) (m4_syntax_code key)
          else if action = 61 then set_syntax_set s (the chars) (m4_syntax_code key)
          else if action = 0 then reset_syntax_set s (m4_syntax_code key)
          else None) = Some s1"
        and s': "s' = m4__quote_uncache (set_quote_age s1 False True)"
        by (auto simp: m4_set_syntax_def Let_def bind_eq_Some_conv split: if_splits)
      have "table_ok s1"
        using s1 table_ok_verbs [OF assms(2) v] by (auto split: if_splits)
      then show ?thesis by (simp add: s')
    qed
  qed
next
  case (Changequote lq rq)
  then show ?thesis using assms
    by (auto simp: m4_set_quotes_eq table_ok_quotes_installed split: if_splits)
next
  case (Changecom bc ec)
  then show ?thesis using assms
    by (auto simp: m4_set_comment_eq table_ok_comment_installed split: if_splits)
next
  case (Quote_cache obs age quotes)
  then obtain r obs' where "m4__quote_cache s obs age quotes = Some (r, s', obs')"
    using assms(1) by auto
  from quote_cache_frame [OF this] show ?thesis
    using assms(2) table_ok_cong [of s' s] by simp
qed

lemma table_ok_fresh: "table_ok fresh"
proof -
  have "entry_ok 16400" "entry_ok 33280"
    by (simp_all add: entry_ok_def basis_code_def code_defs)
  then show ?thesis by (simp add: table_ok_def entry_ok_default_table)
qed

lemma table_ok_reachable: "reachable s \<Longrightarrow> table_ok s"
proof (induction rule: reachable.induct)
  case (reachable_create s)
  then show ?case using table_ok_fresh by (simp add: create_fresh)
next
  case (reachable_step s x s')
  then show ?case using table_ok_step by blast
qed


subsection \<open>Single quotes stay in the table\<close>

lemma carried_on_refl: "carried_on s s"
  by (simp add: carried_on_def)

lemma carried_on_trans: "carried_on s t \<Longrightarrow> carried_on t u \<Longrightarrow> carried_on s u"
  by (simp add: carried_on_def)


lemma single_quotes_inv_carried:
  "single_quotes_inv s \<Longrightarrow> quote s' = quote s \<Longrightarrow>
   (is_single_quotes s' \<longrightarrow> is_single_quotes s) \<Longrightarrow> carried_on s s' \<Longrightarrow>
   single_quotes_inv s'"
  by (auto simp: single_quotes_inv_def carried_on_def)

lemma single_quotes_inv_cong:
  "table s' = table s \<Longrightarrow> quote s' = quote s \<Longrightarrow> is_single_quotes s' = is_single_quotes s \<Longrightarrow>
   single_quotes_inv s' = single_quotes_inv s"
  by (simp add: single_quotes_inv_def m4_has_syntax_def)

lemma quote_bits_remove_ecomm:
  "has_code (remove_code e M4_SYNTAX_ECOMM) M4_SYNTAX_LQUOTE = has_code e M4_SYNTAX_LQUOTE"
  "has_code (remove_code e M4_SYNTAX_ECOMM) M4_SYNTAX_RQUOTE = has_code e M4_SYNTAX_RQUOTE"
  by (rule has_code_remove, simp add: code_defs)+

lemma rquote_add_basis:
  "basis_code k \<Longrightarrow> has_code (add_code e k) M4_SYNTAX_RQUOTE = has_code e M4_SYNTAX_RQUOTE"
  by (rule has_code_add_basis_mask) (auto simp: basis_code_def code_defs)

lemma quote_bits_add_mask:
  "c = M4_SYNTAX_RQUOTE \<or> c = M4_SYNTAX_ECOMM \<Longrightarrow> has_code e t \<Longrightarrow> has_code (add_code e c) t"
  by (auto simp: has_code_add_mask)

lemma basis_code_simps [simp]:
  "basis_code M4_SYNTAX_LQUOTE" "basis_code M4_SYNTAX_BCOMM" "basis_code M4_SYNTAX_OTHER"
  by (simp_all add: basis_code_def)

lemma carried_on_subtract_loop:
  assumes "valid_code c" and "c \<noteq> M4_SYNTAX_LQUOTE" and "c \<noteq> M4_SYNTAX_RQUOTE"
  shows "subtract_loop s chars c = Some s' \<Longrightarrow> table_ok s \<Longrightarrow> carried_on s s'"
proof (induction chars arbitrary: s)
  case Nil
  then show ?case by (simp add: carried_on_refl)
next
  case (Cons a chars)
  show ?case
  proof (cases "a = 0")
    case True
    then show ?thesis using Cons.prems by (simp add: carried_on_refl)
  next
    case False
    then obtain s1 where 1: "(if c AND M4_SYNTAX_MASKS \<noteq> 0 then remove_syntax_attribute s a c
        else if m4_has_syntax s a c then Some (add_syntax_attribute s a M4_SYNTAX_OTHER)
        else Some s) = Some s1" and 2: "subtract_loop s1 chars c = Some s'"
      using Cons.prems(1) by (auto simp: bind_eq_Some_conv)
    have ok1: "table_ok s1" using 1 Cons.prems(2) assms(1)
      by (auto split: if_splits intro: table_ok_remove_syntax_attribute
          table_ok_add_syntax_attribute)
    have "carried_on s s1"
    proof (cases "c AND M4_SYNTAX_MASKS \<noteq> 0")
      case True
      then have c: "c = M4_SYNTAX_ECOMM" using valid_code_mask [OF assms(1)] assms(3) by auto
      then have "s1 = s\<lparr>table := (table s)(a := remove_code (table s a) M4_SYNTAX_ECOMM)\<rparr>"
        using 1 True by (simp add: remove_syntax_attribute_code)
      then show ?thesis
        by (simp add: carried_on_def m4_has_syntax_code quote_bits_remove_ecomm)
    next
      case nomask: False
      then have b: "basis_code c" using assms(1) by (auto simp: valid_code_def code_defs)
      show ?thesis
      proof (cases "m4_has_syntax s a c")
        case True
        then have s1: "s1 = s\<lparr>table := (table s)(a := add_code (table s a) M4_SYNTAX_OTHER)\<rparr>"
          using 1 nomask by (simp add: add_syntax_attribute_code)
        have e: "entry_ok (table s a)" using Cons.prems(2) by (simp add: table_ok_def)
        have "\<not> has_code (table s a) M4_SYNTAX_LQUOTE"
          using has_code_exclusive [OF e b _ assms(2)] True
          by (auto simp: m4_has_syntax_code)
        then show ?thesis
          by (simp add: carried_on_def m4_has_syntax_code s1 rquote_add_basis)
      next
        case False
        then have "s1 = s" using 1 nomask by simp
        then show ?thesis by (simp add: carried_on_refl)
      qed
    qed
    from carried_on_trans [OF this Cons.IH [OF 2 ok1]] show ?thesis .
  qed
qed

lemma subtract_loop_frame:
  "subtract_loop s chars c = Some s' \<Longrightarrow>
   quote s' = quote s \<and> is_single_quotes s' = is_single_quotes s"
proof (induction chars arbitrary: s)
  case Nil
  then show ?case by simp
next
  case (Cons a chars)
  show ?case
  proof (cases "a = 0")
    case True
    then show ?thesis using Cons.prems by simp
  next
    case False
    then obtain s1 where 1: "(if c AND M4_SYNTAX_MASKS \<noteq> 0 then remove_syntax_attribute s a c
        else if m4_has_syntax s a c then Some (add_syntax_attribute s a M4_SYNTAX_OTHER)
        else Some s) = Some s1" and 2: "subtract_loop s1 chars c = Some s'"
      using Cons.prems(1) by (auto simp: bind_eq_Some_conv)
    have "quote s1 = quote s \<and> is_single_quotes s1 = is_single_quotes s"
      using 1 by (auto simp: remove_syntax_attribute_def split: if_splits)
    then show ?thesis using Cons.IH [OF 2] by simp
  qed
qed

lemma single_quotes_inv_subtract:
  assumes "subtract_syntax_set s chars c = Some s'" and "valid_code c"
    and "table_ok s" and "well_formed s" and "single_quotes_inv s"
  shows "single_quotes_inv s'"
proof (cases "deref chars = 0")
  case True
  then show ?thesis using assms(1,5) by (simp add: subtract_syntax_set_def)
next
  case False
  then obtain t where t: "subtract_loop s chars c = Some t"
    and cl: "subtract_cleanup t c = Some s'"
    using assms(1) by (auto simp: subtract_syntax_set_def bind_eq_Some_conv)
  have wft: "well_formed t" using well_formed_steady [OF assms(4) steady_subtract_loop [OF t]] .
  note fr = subtract_loop_frame [OF t]
  show ?thesis
  proof (cases "c = M4_SYNTAX_LQUOTE \<or> c = M4_SYNTAX_RQUOTE")
    case True
    then have "(if is_single_quotes t then check_is_single_quotes t else Some t) = Some s'"
      using cl by (auto simp: subtract_cleanup_def code_defs)
    then show ?thesis
      using check_is_single_quotes_inv [OF _ wft, of s']
      by (auto simp: single_quotes_inv_def split: if_splits)
  next
    case False
    then have car: "carried_on s t"
      using carried_on_subtract_loop [OF assms(2) _ _ t assms(3)] by simp
    have invt: "single_quotes_inv t"
      using single_quotes_inv_carried [OF assms(5) _ _ car] fr by simp
    have "table s' = table t \<and> quote s' = quote t \<and> is_single_quotes s' = is_single_quotes t"
      using cl False check_is_single_comments_frame [of t s']
      by (auto simp: subtract_cleanup_def split: if_splits)
    then show ?thesis using invt single_quotes_inv_cong [of s' t] by simp
  qed
qed





lemma delimiter_sweep_comment_keeps:
  assumes "entry_ok e"
  shows "has_code e M4_SYNTAX_LQUOTE \<Longrightarrow>
      has_code (delimiter_sweep_entry M4_SYNTAX_BCOMM M4_SYNTAX_ECOMM default_table b e)
        M4_SYNTAX_LQUOTE"
    and "has_code e M4_SYNTAX_RQUOTE \<Longrightarrow>
      has_code (delimiter_sweep_entry M4_SYNTAX_BCOMM M4_SYNTAX_ECOMM default_table b e)
        M4_SYNTAX_RQUOTE"
proof -
  define k where "k = (if uint (default_table b) = M4_SYNTAX_BCOMM then M4_SYNTAX_OTHER
                        else uint (default_table b))"
  define e1 where "e1 = (if has_code e M4_SYNTAX_BCOMM then add_code e k else e)"
  have k: "basis_code k"
    by (simp add: k_def uint_default_table basis_code_default_syntax)
  have d: "delimiter_sweep_entry M4_SYNTAX_BCOMM M4_SYNTAX_ECOMM default_table b e
      = (if has_code e1 M4_SYNTAX_ECOMM then remove_code e1 M4_SYNTAX_ECOMM else e1)"
    by (simp add: delimiter_sweep_entry_def Let_def e1_def k_def)
  show "has_code (delimiter_sweep_entry M4_SYNTAX_BCOMM M4_SYNTAX_ECOMM default_table b e)
        M4_SYNTAX_LQUOTE" if l: "has_code e M4_SYNTAX_LQUOTE"
  proof -
    have "M4_SYNTAX_LQUOTE \<noteq> M4_SYNTAX_BCOMM" by (simp add: code_defs)
    then have "\<not> has_code e M4_SYNTAX_BCOMM"
      by (rule has_code_exclusive [OF assms basis_code_simps(1) basis_code_simps(2) _ l])
    then have "e1 = e" by (simp add: e1_def)
    then show ?thesis using l by (simp add: d quote_bits_remove_ecomm)
  qed
  show "has_code (delimiter_sweep_entry M4_SYNTAX_BCOMM M4_SYNTAX_ECOMM default_table b e)
        M4_SYNTAX_RQUOTE" if r: "has_code e M4_SYNTAX_RQUOTE"
  proof -
    have "has_code e1 M4_SYNTAX_RQUOTE" using r by (simp add: e1_def rquote_add_basis [OF k])
    then show ?thesis by (simp add: d quote_bits_remove_ecomm)
  qed
qed

lemma carried_on_comment_installed:
  assumes "table_ok s"
  shows "carried_on s (comment_installed s bc ec)"
proof -
  define t where "t = comment_swept (store_comment s bc ec)"
  have o: "orig s = default_table" using assms by (simp add: table_ok_def)
  have tt: "table t = (\<lambda>b. delimiter_sweep_entry M4_SYNTAX_BCOMM M4_SYNTAX_ECOMM default_table b
      (table s b))"
    by (simp add: t_def comment_swept_def o)
  have st: "carried_on s t"
    using assms delimiter_sweep_comment_keeps
    by (simp add: carried_on_def m4_has_syntax_code tt table_ok_def)
  show ?thesis
  proof (cases "is_single_comments t")
    case False
    then have "table (comment_installed s bc ec) = table t"
      by (simp add: comment_installed_def t_def [symmetric] install_comment_def)
    then show ?thesis using st by (simp add: carried_on_def m4_has_syntax_def)
  next
    case True
    then have "\<not> m4_has_syntax s (deref (cstr bc))
        (M4_SYNTAX_IGNORE OR M4_SYNTAX_ESCAPE OR M4_SYNTAX_ALPHA OR M4_SYNTAX_NUM
         OR M4_SYNTAX_LQUOTE)"
      by (simp add: t_def comment_swept_def)
    then have nl: "\<not> has_code (table s (deref bc)) M4_SYNTAX_LQUOTE"
      by (simp add: m4_has_syntax_code has_code_or)
    have c: "comm t = \<lparr>str1 = cstr bc, len1 = strlen bc, str2 = cstr ec, len2 = strlen ec\<rparr>"
      by (simp add: t_def comment_swept_def)
    define u where "u = (table t)(deref bc := add_code (table t (deref bc)) M4_SYNTAX_BCOMM)"
    have tab: "table (comment_installed s bc ec)
        = u(deref ec := add_code (u (deref ec)) M4_SYNTAX_ECOMM)"
      using True by (simp add: comment_installed_def t_def [symmetric] install_comment_def c u_def)
    have ul: "has_code (u b) M4_SYNTAX_LQUOTE" if "has_code (table s b) M4_SYNTAX_LQUOTE" for b
    proof -
      have "b \<noteq> deref bc" using that nl by auto
      then have "u b = table t b" by (simp add: u_def)
      then show ?thesis using st that by (simp add: carried_on_def m4_has_syntax_code)
    qed
    have ur: "has_code (u b) M4_SYNTAX_RQUOTE" if "has_code (table s b) M4_SYNTAX_RQUOTE" for b
    proof -
      have "has_code (table t b) M4_SYNTAX_RQUOTE"
        using st that by (simp add: carried_on_def m4_has_syntax_code)
      then show ?thesis by (auto simp: u_def rquote_add_basis)
    qed
    have m: "has_code e k \<Longrightarrow> has_code (add_code e M4_SYNTAX_ECOMM) k" for e k
      by (rule quote_bits_add_mask) simp_all
    show ?thesis
      using ul ur m by (simp add: carried_on_def m4_has_syntax_code tab)
  qed
qed

lemma single_quotes_inv_comment_installed:
  "table_ok s \<Longrightarrow> single_quotes_inv s \<Longrightarrow> single_quotes_inv (comment_installed s bc ec)"
  by (rule single_quotes_inv_carried [where s = s])
    (simp_all add: comment_installed_frame carried_on_comment_installed)



lemma single_quotes_inv_set_quote_age [simp]:
  "single_quotes_inv (set_quote_age s r c) = single_quotes_inv s"
  by (rule single_quotes_inv_cong) simp_all

lemma single_quotes_inv_uncache [simp]:
  "single_quotes_inv (m4__quote_uncache s) = single_quotes_inv s"
  by (rule single_quotes_inv_cong) simp_all






subsection \<open>The age in the quote age\<close>

lemma quote_age_full_reset:
  "orig s = default_table \<Longrightarrow>
   quote_age (set_quote_age (installed_defaults s) True False) = 0x6027"
  by (simp add: quote_age_set_quote_age local_syntax_age_def quotes_safe_def
      m4_has_syntax_code default_table_simps has_code_def add_code_def code_defs
      pack_quote_age_def deref_def)

lemma quote_age_after_set_quote_age:
  assumes "quote_age (set_quote_age t r c) \<noteq> 0"
  shows "local_syntax_age t r c < 0xffff"
    and "quote_age (set_quote_age t r c)
      = push_bit 16 (ucast (local_syntax_age t r c))
          OR push_bit 8 (ucast (deref (str1 (quote t)))) OR ucast (deref (str2 (quote t)))"
  using assms
  by (auto simp: quote_age_set_quote_age pack_quote_age_eq quotes_safe_def split: if_splits)

lemma quote_age_verb:
  assumes "m4_set_syntax s key action chars = Some (rc, s')"
    and "key \<noteq> 0" and "0 \<le> m4_syntax_code key"
  shows "syntax_age s' = (if syntax_age s < 0xffff then syntax_age s + 1 else syntax_age s)"
    and "quote_age s' \<noteq> 0 \<Longrightarrow> syntax_age s' < 0xffff
      \<and> quote_age s' = push_bit 16 (ucast (syntax_age s'))
          OR push_bit 8 (ucast (deref (str1 (quote s')))) OR ucast (deref (str2 (quote s')))"
proof -
  obtain t where t: "steady s t" and s': "s' = m4__quote_uncache (set_quote_age t False True)"
    using m4_set_syntax_verb [OF assms] by blast
  have a: "syntax_age t = syntax_age s" using t by (simp add: steady_def)
  have l: "local_syntax_age t False True = syntax_age s'"
    by (simp add: s' syntax_age_set_quote_age local_syntax_age_def)
  show "syntax_age s' = (if syntax_age s < 0xffff then syntax_age s + 1 else syntax_age s)"
    by (simp add: s' syntax_age_set_quote_age a)
  show "syntax_age s' < 0xffff
      \<and> quote_age s' = push_bit 16 (ucast (syntax_age s'))
          OR push_bit 8 (ucast (deref (str1 (quote s')))) OR ucast (deref (str2 (quote s')))"
    if "quote_age s' \<noteq> 0"
  proof -
    have n: "quote_age (set_quote_age t False True) \<noteq> 0" using that by (simp add: s')
    show ?thesis
      using quote_age_after_set_quote_age [OF n] by (simp add: l) (simp add: s')
  qed
qed

lemma quote_age_installer:
  assumes "s' = set_quote_age t False False" and "syntax_age t = syntax_age s"
  shows "syntax_age s' = syntax_age s
    \<and> (quote_age s' \<noteq> 0 \<longrightarrow> syntax_age s' < 0xffff
        \<and> quote_age s' = push_bit 16 (ucast (syntax_age s'))
            OR push_bit 8 (ucast (deref (str1 (quote s')))) OR ucast (deref (str2 (quote s'))))"
proof -
  have l: "local_syntax_age t False False = syntax_age s'"
    by (simp add: assms(1) syntax_age_set_quote_age local_syntax_age_def)
  have a: "syntax_age s' = syntax_age s"
    by (simp add: assms syntax_age_set_quote_age)
  have "syntax_age s' < 0xffff
        \<and> quote_age s' = push_bit 16 (ucast (syntax_age s'))
            OR push_bit 8 (ucast (deref (str1 (quote s')))) OR ucast (deref (str2 (quote s')))"
    if "quote_age s' \<noteq> 0"
  proof -
    have n: "quote_age (set_quote_age t False False) \<noteq> 0" using that by (simp add: assms(1))
    show ?thesis
      using quote_age_after_set_quote_age [OF n] by (simp add: l) (simp add: assms(1))
  qed
  then show ?thesis using a by blast
qed

text \<open>
  C1, as amended.  In every table reached from creation by any operations, if the stored
  \<open>quote_age\<close> is non-zero then: it is \<open>(age << 16) | (left << 8) | right\<close> for an age
  below \<open>0xffff\<close> that is 0 or the stored counter; \<open>is_single_quotes\<close> holds; neither
  quote byte carries any of ALPHA, NUM, OPEN, COMMA, CLOSE, SPACE; the two quote bytes
  differ; the begin-comment string is empty, or its first byte differs from the
  right-quote byte and carries none of OPEN, COMMA, CLOSE; and the byte \<^verbatim>\<open>,\<close> carries
  COMMA.  The age is the one that the operation used which computed \<open>quote_age\<close> last,
  not always the stored counter: creation and the full reset use 0 and leave the counter
  alone, so that \<open>quote_age\<close> is \<open>0x6027\<close> after them; a verb with a known key
  increments the counter, unless it is \<open>0xffff\<close>, and uses the new counter; a
  \<^verbatim>\<open>m4_set_quotes\<close> or \<^verbatim>\<open>m4_set_comment\<close> that does not return early uses the
  counter as it is; an unknown key, an early return of these two and the quote cache
  leave \<open>quote_age\<close> and the counter as they were.
\<close>

theorem quote_age_nonzero_safe:
  assumes "reachable s"
  shows "(quote_age s \<noteq> 0 \<longrightarrow>
       (\<exists>age. (age = 0 \<or> age = syntax_age s) \<and> age < 0xffff
            \<and> quote_age s = push_bit 16 (ucast age)
                 OR push_bit 8 (ucast (deref (str1 (quote s))))
                 OR ucast (deref (str2 (quote s))))
     \<and> is_single_quotes s
     \<and> (\<forall>c \<in> {M4_SYNTAX_ALPHA, M4_SYNTAX_NUM, M4_SYNTAX_OPEN, M4_SYNTAX_COMMA,
                M4_SYNTAX_CLOSE, M4_SYNTAX_SPACE}.
           \<not> m4_has_syntax s (deref (str1 (quote s))) c
           \<and> \<not> m4_has_syntax s (deref (str2 (quote s))) c)
     \<and> deref (str1 (quote s)) \<noteq> deref (str2 (quote s))
     \<and> ((str1 (comm s) = [] \<and> len1 (comm s) = 0)
         \<or> (deref (str1 (comm s)) \<noteq> deref (str2 (quote s))
            \<and> (\<forall>c \<in> {M4_SYNTAX_OPEN, M4_SYNTAX_COMMA, M4_SYNTAX_CLOSE}.
                  \<not> m4_has_syntax s (deref (str1 (comm s))) c)))
     \<and> m4_has_syntax s 44 M4_SYNTAX_COMMA)
   \<and> (\<exists>s0. m4_syntax_create = Some s0 \<and> syntax_age s0 = 0 \<and> quote_age s0 = 0x6027)
   \<and> (\<forall>action chars s'. step s (Changesyntax 0 action chars) = Some s' \<longrightarrow>
         syntax_age s' = syntax_age s \<and> quote_age s' = 0x6027)
   \<and> (\<forall>key action chars s'.
         key \<noteq> 0 \<and> 0 \<le> m4_syntax_code key
         \<and> step s (Changesyntax key action chars) = Some s' \<longrightarrow>
         syntax_age s' = (if syntax_age s < 0xffff then syntax_age s + 1 else syntax_age s)
         \<and> (quote_age s' \<noteq> 0 \<longrightarrow> syntax_age s' < 0xffff
              \<and> quote_age s' = push_bit 16 (ucast (syntax_age s'))
                   OR push_bit 8 (ucast (deref (str1 (quote s'))))
                   OR ucast (deref (str2 (quote s')))))
   \<and> (\<forall>key action chars s'.
         key \<noteq> 0 \<and> m4_syntax_code key < 0
         \<and> step s (Changesyntax key action chars) = Some s' \<longrightarrow> s' = s)
   \<and> (\<forall>lq rq s'. step s (Changequote lq rq) = Some s' \<longrightarrow>
         s' = s
         \<or> (syntax_age s' = syntax_age s
            \<and> (quote_age s' \<noteq> 0 \<longrightarrow> syntax_age s' < 0xffff
                 \<and> quote_age s' = push_bit 16 (ucast (syntax_age s'))
                      OR push_bit 8 (ucast (deref (str1 (quote s'))))
                      OR ucast (deref (str2 (quote s'))))))
   \<and> (\<forall>bc ec s'. step s (Changecom bc ec) = Some s' \<longrightarrow>
         s' = s
         \<or> (syntax_age s' = syntax_age s
            \<and> (quote_age s' \<noteq> 0 \<longrightarrow> syntax_age s' < 0xffff
                 \<and> quote_age s' = push_bit 16 (ucast (syntax_age s'))
                      OR push_bit 8 (ucast (deref (str1 (quote s'))))
                      OR ucast (deref (str2 (quote s'))))))
   \<and> (\<forall>obs age quotes s'. step s (Quote_cache obs age quotes) = Some s' \<longrightarrow>
         syntax_age s' = syntax_age s \<and> quote_age s' = quote_age s)"
proof -
  have wf: "well_formed s" using assms(1) by (rule well_formed_reachable)
  then have o: "orig s = default_table" by (simp add: well_formed_def)
  have empty: "len1 (comm s) = 0 \<Longrightarrow> str1 (comm s) = []"
    using wf by (simp add: well_formed_def)
  have A: "(\<exists>age. (age = 0 \<or> age = syntax_age s) \<and> age < 0xffff
            \<and> quote_age s = push_bit 16 (ucast age)
                 OR push_bit 8 (ucast (deref (str1 (quote s))))
                 OR ucast (deref (str2 (quote s))))
     \<and> is_single_quotes s
     \<and> (\<forall>c \<in> {M4_SYNTAX_ALPHA, M4_SYNTAX_NUM, M4_SYNTAX_OPEN, M4_SYNTAX_COMMA,
                M4_SYNTAX_CLOSE, M4_SYNTAX_SPACE}.
           \<not> m4_has_syntax s (deref (str1 (quote s))) c
           \<and> \<not> m4_has_syntax s (deref (str2 (quote s))) c)
     \<and> deref (str1 (quote s)) \<noteq> deref (str2 (quote s))
     \<and> ((str1 (comm s) = [] \<and> len1 (comm s) = 0)
         \<or> (deref (str1 (comm s)) \<noteq> deref (str2 (quote s))
            \<and> (\<forall>c \<in> {M4_SYNTAX_OPEN, M4_SYNTAX_COMMA, M4_SYNTAX_CLOSE}.
                  \<not> m4_has_syntax s (deref (str1 (comm s))) c)))
     \<and> m4_has_syntax s 44 M4_SYNTAX_COMMA" if nz: "quote_age s \<noteq> 0"
  proof -
    have inv: "quote_age_inv s" using assms(1) by (rule quote_age_inv_reachable)
    then obtain age where age: "age = 0 \<or> age = syntax_age s" and safe: "quotes_safe s age"
      and qa: "quote_age s
        = pack_quote_age age (deref (str1 (quote s))) (deref (str2 (quote s)))"
      using nz by (auto simp: quote_age_inv_def)
    have 1: "\<exists>age. (age = 0 \<or> age = syntax_age s) \<and> age < 0xffff
            \<and> quote_age s = push_bit 16 (ucast age)
                 OR push_bit 8 (ucast (deref (str1 (quote s))))
                 OR ucast (deref (str2 (quote s)))"
      using age safe qa by (auto simp: pack_quote_age_eq quotes_safe_def)
    show ?thesis using 1 safe empty
      by (auto simp: quotes_safe_def m4_has_syntax_code has_code_or)
  qed
  have B0: "\<exists>s0. m4_syntax_create = Some s0 \<and> syntax_age s0 = 0 \<and> quote_age s0 = 0x6027"
    by (simp add: create_fresh)
  have B1: "syntax_age s' = syntax_age s \<and> quote_age s' = 0x6027"
    if "step s (Changesyntax 0 action chars) = Some s'" for action chars s'
    using that o by (auto simp: m4_set_syntax_null_key syntax_age_set_quote_age
        quote_age_full_reset)
  have B2: "syntax_age s' = (if syntax_age s < 0xffff then syntax_age s + 1 else syntax_age s)
         \<and> (quote_age s' \<noteq> 0 \<longrightarrow> syntax_age s' < 0xffff
              \<and> quote_age s' = push_bit 16 (ucast (syntax_age s'))
                   OR push_bit 8 (ucast (deref (str1 (quote s'))))
                   OR ucast (deref (str2 (quote s'))))"
    if "key \<noteq> 0 \<and> 0 \<le> m4_syntax_code key
         \<and> step s (Changesyntax key action chars) = Some s'" for key action chars s'
  proof -
    have "map_option snd (m4_set_syntax s key action chars) = Some s'"
      using that by simp
    then obtain rc where 1: "m4_set_syntax s key action chars = Some (rc, s')"
      by (cases "m4_set_syntax s key action chars") auto
    show ?thesis using quote_age_verb [OF 1] that by blast
  qed
  have B3: "s' = s" if "key \<noteq> 0 \<and> m4_syntax_code key < 0
         \<and> step s (Changesyntax key action chars) = Some s'" for key action chars s'
    using that by (auto simp: m4_set_syntax_def split: if_splits)
  have B4: "s' = s
         \<or> (syntax_age s' = syntax_age s
            \<and> (quote_age s' \<noteq> 0 \<longrightarrow> syntax_age s' < 0xffff
                 \<and> quote_age s' = push_bit 16 (ucast (syntax_age s'))
                      OR push_bit 8 (ucast (deref (str1 (quote s'))))
                      OR ucast (deref (str2 (quote s')))))"
    if "step s (Changequote lq rq) = Some s'" for lq rq s'
  proof (cases "s' = s")
    case False
    then have "s' = set_quote_age (quotes_installed s (fst (effective_quotes lq rq))
                 (snd (effective_quotes lq rq))) False False"
      using that by (auto simp: m4_set_quotes_eq split: if_splits)
    from quote_age_installer [OF this quotes_installed_frame(1)] show ?thesis by blast
  qed simp
  have B5: "s' = s
         \<or> (syntax_age s' = syntax_age s
            \<and> (quote_age s' \<noteq> 0 \<longrightarrow> syntax_age s' < 0xffff
                 \<and> quote_age s' = push_bit 16 (ucast (syntax_age s'))
                      OR push_bit 8 (ucast (deref (str1 (quote s'))))
                      OR ucast (deref (str2 (quote s')))))"
    if "step s (Changecom bc ec) = Some s'" for bc ec s'
  proof (cases "s' = s")
    case False
    then have "s' = set_quote_age (comment_installed s (fst (effective_comment bc ec))
                 (snd (effective_comment bc ec))) False False"
      using that by (auto simp: m4_set_comment_eq split: if_splits)
    from quote_age_installer [OF this comment_installed_frame(1)] show ?thesis by blast
  qed simp
  have B6: "syntax_age s' = syntax_age s \<and> quote_age s' = quote_age s"
    if "step s (Quote_cache obs age quotes) = Some s'" for obs age quotes s'
  proof -
    have "map_option (\<lambda>r. fst (snd r)) (m4__quote_cache s obs age quotes) = Some s'"
      using that by simp
    then obtain r obs' where "m4__quote_cache s obs age quotes = Some (r, s', obs')"
      by (cases "m4__quote_cache s obs age quotes") auto
    from quote_cache_frame [OF this] show ?thesis by simp
  qed
  show ?thesis
    apply (intro conjI)
    subgoal by (rule impI, rule A, assumption)
    subgoal by (rule B0)
    subgoal by (intro allI impI, rule B1, assumption)
    subgoal by (intro allI impI, rule B2, assumption)
    subgoal by (intro allI impI, rule B3, assumption)
    subgoal by (intro allI impI, rule B4, assumption)
    subgoal by (intro allI impI, rule B5, assumption)
    subgoal by (intro allI impI, rule B6, assumption)
    done
qed


theorem quote_age_nonzero_safe_witness:
  "reachable fresh \<and> (79 :: byte) \<noteq> 0 \<and> 0 \<le> m4_syntax_code 79
   \<and> step fresh (Changesyntax 79 43 (Some [120])) \<noteq> None
   \<and> reachable (the (step fresh (Changesyntax 79 43 (Some [120]))))
   \<and> syntax_age fresh = 0
   \<and> syntax_age (the (step fresh (Changesyntax 79 43 (Some [120])))) = 1
   \<and> quote_age (the (step fresh (Changesyntax 79 43 (Some [120])))) = 0x16027
   \<and> is_single_quotes (the (step fresh (Changesyntax 79 43 (Some [120]))))
   \<and> deref (str1 (quote (the (step fresh (Changesyntax 79 43 (Some [120])))))) = 96
   \<and> deref (str2 (quote (the (step fresh (Changesyntax 79 43 (Some [120])))))) = 39
   \<and> m4_has_syntax (the (step fresh (Changesyntax 79 43 (Some [120])))) 44 M4_SYNTAX_COMMA"
proof -
  let ?x = "Changesyntax 79 43 (Some [120])"
  let ?s = "m4__quote_uncache (set_quote_age (add_syntax_set fresh [120] 16) False True)"
  have k: "(79 :: byte) \<noteq> 0" "0 \<le> m4_syntax_code 79"
    by (simp_all add: m4_syntax_code_O M4_SYNTAX_OTHER_def)
  have st: "step fresh ?x = Some ?s"
    using k by (simp add: m4_set_syntax_add m4_syntax_code_O M4_SYNTAX_OTHER_def)
  have r: "reachable ?s" by (rule reachable_step [OF reachable_fresh st])
  have d: "deref (str1 (quote ?s)) = 96" "deref (str2 (quote ?s)) = 39"
    by (simp_all add: deref_def)
  have nz: "quote_age ?s \<noteq> 0"
    by (simp add: quote_age_set_quote_age local_syntax_age_def table_add_syntax_set
        quotes_safe_def m4_has_syntax_code has_code_def add_code_def default_table_simps
        M4_SYNTAX_ALPHA_def M4_SYNTAX_NUM_def M4_SYNTAX_OPEN_def M4_SYNTAX_COMMA_def
        M4_SYNTAX_CLOSE_def M4_SYNTAX_SPACE_def M4_SYNTAX_RQUOTE_def M4_SYNTAX_ECOMM_def
        M4_SYNTAX_MASKS_def deref_def pack_quote_age_def add_syntax_attribute_code)
  have h: "(79 :: byte) \<noteq> 0 \<and> 0 \<le> m4_syntax_code 79 \<and> step fresh ?x = Some ?s"
    using k st by simp
  note v = quote_age_nonzero_safe [OF reachable_fresh, THEN conjunct2, THEN conjunct2,
      THEN conjunct2, THEN conjunct1, rule_format, OF h]
  have a: "syntax_age ?s = 1" using v by simp
  have q: "quote_age ?s = 0x16027"
    using v nz by (simp add: a deref_def)
  note u = quote_age_nonzero_safe [OF r, THEN conjunct1, rule_format, OF nz]
  have f: "is_single_quotes ?s" "m4_has_syntax ?s 44 M4_SYNTAX_COMMA"
    using u by blast+
  have n: "step fresh ?x \<noteq> None" unfolding st by simp
  have t: "the (step fresh ?x) = ?s" unfolding st by simp
  have z: "syntax_age fresh = 0" by simp
  show ?thesis unfolding t by (intro conjI) (fact reachable_fresh k n r z a q f d)+
qed

text \<open>
  The claim as stated fails with the stored counter for the age: after two verbs and a
  full reset the counter is 2 and \<open>quote_age\<close> is \<open>0x6027\<close>, with 0 in its upper half.
\<close>

theorem quote_age_counter_counterexample:
  "map_option quote_age
     (run [Changesyntax 79 43 (Some [120]), Changesyntax 79 43 (Some [120]),
           Changesyntax 0 0 None]) = Some 0x6027
   \<and> map_option syntax_age
     (run [Changesyntax 79 43 (Some [120]), Changesyntax 79 43 (Some [120]),
           Changesyntax 0 0 None]) = Some 2"
  by (simp add: run_simps syntax_age_set_quote_age quote_age_full_reset)

subsection \<open>The reset verb, entry by entry\<close>

lemma default_syntax_not_ignore: "default_syntax b \<noteq> M4_SYNTAX_IGNORE"
  by (simp add: default_syntax_def code_defs)

lemma carries_basis:
  assumes "table_ok s" and "basis_code c"
  shows "m4_has_syntax s b c = (c \<noteq> M4_SYNTAX_IGNORE \<and> basis_of (table s b) = c)"
  using assms has_code_basis [of "table s b" c]
  by (auto simp: m4_has_syntax_code table_ok_def basis_of_def M4_SYNTAX_IGNORE_def)

lemma reset_verb_table:
  assumes "m4_set_syntax s key 0 (Some chars) = Some (rc, s')"
    and "key \<noteq> 0" and "0 \<le> m4_syntax_code key"
  shows "table s' = (\<lambda>b. reset_sweep_entry (m4_syntax_code key) (orig s) b (table s b))"
proof -
  from assms obtain t where
    t: "run_checkers (s\<lparr>table :=
          (\<lambda>b. reset_sweep_entry (m4_syntax_code key) (orig s) b (table s b))\<rparr>) = Some t"
    and s': "s' = m4__quote_uncache (set_quote_age t False True)"
    by (auto simp: m4_set_syntax_def Let_def bind_eq_Some_conv reset_syntax_set_eq)
  show ?thesis using steady_run_checkers [OF t] by (simp add: s')
qed

text \<open>
  C5, as amended.  On a reachable table, for every non-null byte string, the reset verb
  (null action) on a category code \<open>c\<close> returns \<open>c\<close> and sweeps all bytes: for RQUOTE
  the mask ends up set on the apostrophe and cleared on every other byte; for ECOMM it
  ends up set on newline and cleared on every other byte; for a basis code other than
  IGNORE, every byte whose default basis is \<open>c\<close> or whose basis is \<open>c\<close> gets its default
  basis back (its mask bits stay) and the other bytes keep their entries, so that after
  resetting LQUOTE the backtick is the only byte carrying LQUOTE; for IGNORE, the code
  without bits, no entry changes.  Then the three checkers run on the swept table, and
  the quote age is set: \<open>is_macro_escaped\<close> says whether some byte carries ESCAPE, and
  \<open>is_single_quotes\<close> and \<open>is_single_comments\<close>, where they still hold, come with
  stored delimiter bytes that carry their categories.
\<close>

theorem reset_verb_restores_defaults:
  assumes "reachable s" and "key \<noteq> 0" and "m4_syntax_code key = c" and "0 \<le> c"
  shows "\<exists>s' t. m4_set_syntax s key 0 (Some chars) = Some (c, s')
    \<and> (\<forall>b. table s' b =
          (if c = M4_SYNTAX_RQUOTE
             then (if b = 39 then table s b OR 0x4000 else table s b AND NOT 0x4000)
           else if c = M4_SYNTAX_ECOMM
             then (if b = 10 then table s b OR 0x8000 else table s b AND NOT 0x8000)
           else if c \<noteq> M4_SYNTAX_IGNORE
                \<and> (default_syntax b = c \<or> basis_of (table s b) = c)
             then (table s b AND 0xC000) OR word_of_int (default_syntax b)
           else table s b))
    \<and> (c = M4_SYNTAX_IGNORE \<longrightarrow> table s' = table s)
    \<and> (c = M4_SYNTAX_RQUOTE \<longrightarrow> (\<forall>b. m4_has_syntax s' b M4_SYNTAX_RQUOTE = (b = 39)))
    \<and> (c = M4_SYNTAX_ECOMM \<longrightarrow> (\<forall>b. m4_has_syntax s' b M4_SYNTAX_ECOMM = (b = 10)))
    \<and> (c = M4_SYNTAX_LQUOTE \<longrightarrow> (\<forall>b. m4_has_syntax s' b M4_SYNTAX_LQUOTE = (b = 96)))
    \<and> run_checkers (s\<lparr>table := table s'\<rparr>) = Some t
    \<and> s' = m4__quote_uncache (set_quote_age t False True)
    \<and> is_macro_escaped s' = (\<exists>b. m4_has_syntax s' b M4_SYNTAX_ESCAPE)
    \<and> (is_single_quotes s' \<longrightarrow>
          m4_has_syntax s' (deref (str1 (quote s'))) M4_SYNTAX_LQUOTE
          \<and> m4_has_syntax s' (deref (str2 (quote s'))) M4_SYNTAX_RQUOTE)
    \<and> (is_single_comments s' \<longrightarrow>
          m4_has_syntax s' (deref (str1 (comm s'))) M4_SYNTAX_BCOMM
          \<and> m4_has_syntax s' (deref (str2 (comm s'))) M4_SYNTAX_ECOMM)"
proof -
  have wf: "well_formed s" using assms(1) by (rule well_formed_reachable)
  then have o: "orig s = default_table" by (simp add: well_formed_def)
  have ok: "table_ok s" using assms(1) by (rule table_ok_reachable)
  have v: "valid_code c" using valid_code_m4_syntax_code [of key] assms(3,4) by simp
  define s0 where "s0 = s\<lparr>table := (\<lambda>b. reset_sweep_entry c default_table b (table s b))\<rparr>"
  have wf0: "well_formed s0" unfolding s0_def by (rule well_formed_steady [OF wf steady_table])
  obtain t where t: "run_checkers s0 = Some t" using run_checkers_total [OF wf0] by blast
  note est = run_checkers_establishes [OF t wf0]
  define s' where "s' = m4__quote_uncache (set_quote_age t False True)"
  have run: "m4_set_syntax s key 0 (Some chars) = Some (c, s')"
    using assms(2-4) t by (simp add: m4_set_syntax_def reset_syntax_set_eq o s0_def s'_def)
  have tab: "table s' = table s0" using est(1) by (simp add: s'_def)
  have has: "m4_has_syntax s' = m4_has_syntax s0" by (rule m4_has_syntax_cong [OF tab])
  have s0: "s\<lparr>table := table s'\<rparr> = s0" by (simp add: tab) (simp add: s0_def)
  have cond: "(default_syntax b = c \<or> has_code (table s b) c)
      = (c \<noteq> M4_SYNTAX_IGNORE \<and> (default_syntax b = c \<or> basis_of (table s b) = c))"
    if "c \<noteq> M4_SYNTAX_RQUOTE" and "c \<noteq> M4_SYNTAX_ECOMM" for b
  proof -
    have "basis_code c" using v that by (simp add: valid_code_def)
    from carries_basis [OF ok this, of b] show ?thesis
      using default_syntax_not_ignore [of b] by (auto simp: m4_has_syntax_code)
  qed
  have 1: "\<forall>b. table s' b =
          (if c = M4_SYNTAX_RQUOTE
             then (if b = 39 then table s b OR 0x4000 else table s b AND NOT 0x4000)
           else if c = M4_SYNTAX_ECOMM
             then (if b = 10 then table s b OR 0x8000 else table s b AND NOT 0x8000)
           else if c \<noteq> M4_SYNTAX_IGNORE
                \<and> (default_syntax b = c \<or> basis_of (table s b) = c)
             then (table s b AND 0xC000) OR word_of_int (default_syntax b)
           else table s b)"
    using cond by (simp add: tab s0_def reset_sweep_entry_word)
  have 0: "c = M4_SYNTAX_IGNORE \<longrightarrow> table s' = table s"
    using 1 by (auto simp: fun_eq_iff code_defs)
  have 2: "c = M4_SYNTAX_RQUOTE \<longrightarrow> (\<forall>b. m4_has_syntax s' b M4_SYNTAX_RQUOTE = (b = 39))"
    by (simp add: has m4_has_syntax_code s0_def reset_sweep_entry_rquote)
  have 3: "c = M4_SYNTAX_ECOMM \<longrightarrow> (\<forall>b. m4_has_syntax s' b M4_SYNTAX_ECOMM = (b = 10))"
    by (simp add: has m4_has_syntax_code s0_def reset_sweep_entry_ecomm)
  have 4: "c = M4_SYNTAX_LQUOTE \<longrightarrow> (\<forall>b. m4_has_syntax s' b M4_SYNTAX_LQUOTE = (b = 96))"
    by (simp add: has m4_has_syntax_code s0_def reset_sweep_entry_lquote)
  have hast: "m4_has_syntax s' = m4_has_syntax t"
    by (rule m4_has_syntax_cong) (simp add: s'_def)
  have 5: "is_macro_escaped s' = (\<exists>b. m4_has_syntax s' b M4_SYNTAX_ESCAPE)"
    using est(2) by (simp add: has) (simp add: s'_def m4__quote_uncache_def)
  have 6: "is_single_quotes s' \<longrightarrow>
          m4_has_syntax s' (deref (str1 (quote s'))) M4_SYNTAX_LQUOTE
          \<and> m4_has_syntax s' (deref (str2 (quote s'))) M4_SYNTAX_RQUOTE"
    using est(3) by (simp add: hast) (simp add: s'_def single_quotes_inv_def)
  have 7: "is_single_comments s' \<longrightarrow>
          m4_has_syntax s' (deref (str1 (comm s'))) M4_SYNTAX_BCOMM
          \<and> m4_has_syntax s' (deref (str2 (comm s'))) M4_SYNTAX_ECOMM"
    using est(4) by (simp add: hast) (simp add: s'_def single_comments_inv_def)
  have 8: "run_checkers (s\<lparr>table := table s'\<rparr>) = Some t" using t by (simp only: s0)
  have 9: "s' = m4__quote_uncache (set_quote_age t False True)" by (rule s'_def)
  show ?thesis
    by (intro exI [of _ s'] exI [of _ t] conjI) (fact run 1 0 2 3 4 8 9 5 6 7)+
qed

theorem reset_verb_restores_defaults_witness:
  "run [Changesyntax 76 43 (Some [120])] \<noteq> None
   \<and> reachable (the (run [Changesyntax 76 43 (Some [120])]))
   \<and> (76 :: byte) \<noteq> 0 \<and> m4_syntax_code 76 = M4_SYNTAX_LQUOTE \<and> 0 \<le> M4_SYNTAX_LQUOTE
   \<and> m4_has_syntax (the (run [Changesyntax 76 43 (Some [120])])) 120 M4_SYNTAX_LQUOTE
   \<and> m4_set_syntax (the (run [Changesyntax 76 43 (Some [120])])) 76 0 (Some []) \<noteq> None
   \<and> fst (the (m4_set_syntax (the (run [Changesyntax 76 43 (Some [120])])) 76 0 (Some [])))
        = M4_SYNTAX_LQUOTE
   \<and> \<not> m4_has_syntax
         (snd (the (m4_set_syntax (the (run [Changesyntax 76 43 (Some [120])])) 76 0
            (Some [])))) 120 M4_SYNTAX_LQUOTE
   \<and> m4_has_syntax
         (snd (the (m4_set_syntax (the (run [Changesyntax 76 43 (Some [120])])) 76 0
            (Some [])))) 96 M4_SYNTAX_LQUOTE"
proof -
  let ?s = "the (run [Changesyntax 76 43 (Some [120])])"
  have c: "m4_syntax_code 76 = M4_SYNTAX_LQUOTE"
    by (simp add: m4_syntax_code_def code_defs)
  have p: "0 \<le> M4_SYNTAX_LQUOTE" by (simp add: M4_SYNTAX_LQUOTE_def)
  have k: "(76 :: byte) \<noteq> 0" by simp
  have run: "run [Changesyntax 76 43 (Some [120])] = Some ?s"
    using p by (simp add: run_def create_fresh m4_set_syntax_add c)
  have r: "reachable ?s" using run by (rule reachable_run)
  have x: "m4_has_syntax ?s 120 M4_SYNTAX_LQUOTE"
    using p by (simp add: run_def create_fresh m4_set_syntax_add c m4_has_syntax_code
        table_add_syntax_set deref_def add_code_def has_code_def code_defs default_table_def
        default_syntax_def isspace_def isalpha_def isdigit_def)
  from reset_verb_restores_defaults [OF r k c p, of "[]"]
  obtain s' where s': "m4_set_syntax ?s 76 0 (Some []) = Some (M4_SYNTAX_LQUOTE, s')"
    and l0: "M4_SYNTAX_LQUOTE = M4_SYNTAX_LQUOTE
      \<longrightarrow> (\<forall>b. m4_has_syntax s' b M4_SYNTAX_LQUOTE = (b = 96))"
    apply (elim exE conjE)
    subgoal for s' t by (rule that [of s']; assumption)
    done
  have l: "\<forall>b. m4_has_syntax s' b M4_SYNTAX_LQUOTE = (b = 96)"
    using l0 by (rule mp) (rule refl)
  have y: "m4_set_syntax ?s 76 0 (Some []) \<noteq> None"
    "fst (the (m4_set_syntax ?s 76 0 (Some []))) = M4_SYNTAX_LQUOTE"
    "\<not> m4_has_syntax (snd (the (m4_set_syntax ?s 76 0 (Some [])))) 120 M4_SYNTAX_LQUOTE"
    "m4_has_syntax (snd (the (m4_set_syntax ?s 76 0 (Some [])))) 96 M4_SYNTAX_LQUOTE"
    using l by (simp_all add: s')
  have n: "run [Changesyntax 76 43 (Some [120])] \<noteq> None" using run by blast
  show ?thesis by (intro conjI) (fact n r k c p x y)+
qed

text \<open>
  The claim as stated fails for the basis code IGNORE: after \<^verbatim>\<open>I+a\<close> the entry of
  \<^verbatim>\<open>a\<close> is 0, the basis IGNORE, and the reset verb on IGNORE leaves it there; the
  default basis of \<^verbatim>\<open>a\<close> is ALPHA.
\<close>

theorem reset_ignore_counterexample:
  "m4_syntax_code 73 = M4_SYNTAX_IGNORE
   \<and> map_option (entry_at 97) (run [Changesyntax 73 43 (Some [97])]) = Some 0
   \<and> basis_of 0 = M4_SYNTAX_IGNORE
   \<and> map_option (entry_at 97)
       (run [Changesyntax 73 43 (Some [97]), Changesyntax 73 0 (Some [])]) = Some 0
   \<and> default_syntax 97 = M4_SYNTAX_ALPHA"
proof -
  let ?s = "m4__quote_uncache (set_quote_age (add_syntax_set fresh [97] 0) False True)"
  have c: "m4_syntax_code 73 = M4_SYNTAX_IGNORE" by (simp add: m4_syntax_code_def)
  have c0: "m4_syntax_code 73 = 0" by (simp add: m4_syntax_code_def M4_SYNTAX_IGNORE_def)
  have st: "step fresh (Changesyntax 73 43 (Some [97])) = Some ?s"
    by (simp add: m4_set_syntax_add c0)
  have e0: "table (add_syntax_set fresh [97] 0) 97 = 0"
    by (simp add: table_add_syntax_set deref_def add_syntax_attribute_code add_code_def
        M4_SYNTAX_MASKS_def M4_SYNTAX_RQUOTE_def M4_SYNTAX_ECOMM_def default_table_def
        default_syntax_def isspace_def isalpha_def isdigit_def code_defs)
  have e1: "table ?s 97 = 0" using e0 by simp
  have wf: "well_formed ?s"
    using well_formed_reachable [OF reachable_step [OF reachable_fresh st]] .
  obtain s2 where s2: "m4_set_syntax ?s 73 0 (Some []) = Some (m4_syntax_code 73, s2)"
    using m4_set_syntax_total [OF wf, of 73 0 "[]"] by (auto simp: c0)
  have "table s2 97 = reset_sweep_entry 0 default_table 97 0"
    using reset_verb_table [OF s2] by (simp add: c0 e0)
  then have e2: "table s2 97 = 0"
    by (simp add: reset_sweep_entry_def has_code_def uint_default_table default_syntax_def
        isspace_def isalpha_def isdigit_def code_defs)
  have st2: "step ?s (Changesyntax 73 0 (Some [])) = Some s2" by (simp add: s2)
  have r1: "run [Changesyntax 73 43 (Some [97])] = Some ?s"
    by (simp add: run_def create_fresh st del: step.simps)
  have r2: "run [Changesyntax 73 43 (Some [97]), Changesyntax 73 0 (Some [])] = Some s2"
    by (simp add: run_def create_fresh st st2 del: step.simps)
  have b: "basis_of 0 = M4_SYNTAX_IGNORE" by (simp add: basis_of_def M4_SYNTAX_IGNORE_def)
  have d: "default_syntax 97 = M4_SYNTAX_ALPHA"
    by (simp add: default_syntax_def isspace_def isalpha_def isdigit_def)
  show ?thesis unfolding r1 r2 using c b d e1 e2 by (simp add: entry_at_def)
qed


subsection \<open>The single-quotes flag under every operation\<close>






lemma m4_has_syntax_add_syntax_set:
  "deref chars \<noteq> 0 \<Longrightarrow>
   m4_has_syntax (add_syntax_set s chars c) = m4_has_syntax (add_loop s chars c)"
  by (rule m4_has_syntax_cong) (simp add: table_add_syntax_set)



lemma add_code_not_lquote:
  assumes "basis_code c" and "c \<noteq> M4_SYNTAX_LQUOTE"
  shows "\<not> has_code (add_code e c) M4_SYNTAX_LQUOTE"
proof -
  have "has_code (add_code e c) M4_SYNTAX_LQUOTE = has_code (word_of_int c) M4_SYNTAX_LQUOTE"
    by (rule has_code_add_basis [OF basis_code_no_masks [OF assms(1)]])
      (simp add: M4_SYNTAX_LQUOTE_def)
  then show ?thesis
    using basis_code_has_code [OF assms(1) basis_code_simps(1)] assms(2) by simp
qed

lemma add_loop_overwrites:
  assumes "basis_code c" and "c \<noteq> M4_SYNTAX_LQUOTE"
  shows "b \<in> set (cstr chars) \<or> \<not> m4_has_syntax s b M4_SYNTAX_LQUOTE \<Longrightarrow>
    \<not> m4_has_syntax (add_loop s chars c) b M4_SYNTAX_LQUOTE"
proof (induction chars arbitrary: s)
  case Nil
  then show ?case by (simp add: cstr_def)
next
  case (Cons a chars)
  show ?case
  proof (cases "a = 0")
    case True
    then show ?thesis using Cons.prems by (simp add: cstr_def)
  next
    case False
    have "b \<in> set (cstr chars)
        \<or> \<not> m4_has_syntax (add_syntax_attribute s a c) b M4_SYNTAX_LQUOTE"
      using Cons.prems False add_code_not_lquote [OF assms]
      by (auto simp: cstr_def m4_has_syntax_code add_syntax_attribute_code)
    from Cons.IH [OF this] False show ?thesis by simp
  qed
qed

text \<open>
  The operations that \<open>overwrites_left_quote\<close> names are the ones that lose the category of
  the stored left byte while the flag stays set.
\<close>

lemma overwrites_left_quote_loses:
  assumes "step s x = Some s'" and "overwrites_left_quote s x"
  shows "is_single_quotes s' \<and> quote s' = quote s
    \<and> \<not> m4_has_syntax s' (deref (str1 (quote s'))) M4_SYNTAX_LQUOTE"
proof (cases x)
  case (Changesyntax key action chars)
  then obtain cs where cs: "chars = Some cs" and k: "key \<noteq> 0" and a: "action = 43"
    and b: "basis_code (m4_syntax_code key)" and n: "m4_syntax_code key \<noteq> M4_SYNTAX_LQUOTE"
    and f: "is_single_quotes s" and m: "deref (str1 (quote s)) \<in> set (cstr cs)"
    using assms(2) by (cases chars) auto
  have p: "0 \<le> m4_syntax_code key" using b by (auto simp: basis_code_def code_defs)
  have d: "deref cs \<noteq> 0" using m by (cases cs) (auto simp: string_defs)
  have s': "s' = m4__quote_uncache
      (set_quote_age (add_syntax_set s cs (m4_syntax_code key)) False True)"
    using assms(1) Changesyntax cs a k p by (simp add: m4_set_syntax_add)
  have "\<not> m4_has_syntax (add_loop s cs (m4_syntax_code key)) (deref (str1 (quote s)))
      M4_SYNTAX_LQUOTE"
    using add_loop_overwrites [OF b n] m by blast
  then have "\<not> m4_has_syntax (add_syntax_set s cs (m4_syntax_code key))
      (deref (str1 (quote s))) M4_SYNTAX_LQUOTE"
    using d by (simp add: m4_has_syntax_add_syntax_set)
  then show ?thesis using f by (simp add: s' m4_has_syntax_def)
qed (use assms(2) in simp_all)






subsection \<open>The fresh table\<close>

text \<open>
  C6.  A freshly created table has left quote backtick, right quote apostrophe, begin
  comment \<^verbatim>\<open>#\<close> and end comment newline, each of length 1; \<open>is_single_quotes\<close> and
  \<open>is_single_comments\<close> are true and \<open>is_macro_escaped\<close> is false; \<open>quote_age\<close> is
  non-zero, its upper 16 bits are 0 and its lower 16 bits are \<open>(0x60 << 8) | 0x27\<close>.
\<close>

theorem fresh_table_defaults:
  "\<exists>s. m4_syntax_create = Some s
     \<and> str1 (quote s) = [96] \<and> len1 (quote s) = 1
     \<and> str2 (quote s) = [39] \<and> len2 (quote s) = 1
     \<and> str1 (comm s) = [35] \<and> len1 (comm s) = 1
     \<and> str2 (comm s) = [10] \<and> len2 (comm s) = 1
     \<and> is_single_quotes s \<and> is_single_comments s \<and> \<not> is_macro_escaped s
     \<and> quote_age s \<noteq> 0
     \<and> drop_bit 16 (quote_age s) = 0
     \<and> take_bit 16 (quote_age s) = push_bit 8 0x60 OR 0x27"
  by (simp add: create_Some)

subsection \<open>The quote cache without quotes\<close>

text \<open>
  C10.  For every age and every obstack argument (null or not), \<^verbatim>\<open>m4__quote_cache\<close>
  called with a null quote pair returns a null pointer and leaves the syntax table (and the
  obstack) as they were.
\<close>

theorem quote_cache_null_quotes:
  "m4__quote_cache syntax obs age None = Some (None, syntax, obs)"
  by (simp add: m4__quote_cache_def)

subsection \<open>Unknown keys\<close>

lemma m4_syntax_code_unknown: "\<not> known_key key \<Longrightarrow> m4_syntax_code key = - 1"
  by (simp add: known_key_def m4_syntax_code_def)

text \<open>
  C9, as amended.  For every key byte outside the mapping of section 4.7,
  \<^verbatim>\<open>m4_syntax_code\<close> is negative; and when the key is not the NUL byte, for every
  action and every non-null byte string \<^verbatim>\<open>m4_set_syntax\<close> returns \<open>-1\<close> and leaves
  the whole table as it was.  (The NUL key is the full reset.)
\<close>

theorem unknown_key_rejected:
  "\<not> known_key key \<Longrightarrow>
     m4_syntax_code key < 0
     \<and> (key \<noteq> 0 \<longrightarrow> m4_set_syntax syntax key action (Some chars) = Some (- 1, syntax))"
  by (simp add: m4_syntax_code_unknown m4_set_syntax_def)

theorem unknown_key_rejected_witness:
  "\<not> known_key 90 \<and> m4_syntax_code 90 < 0
   \<and> m4_set_syntax fresh 90 43 (Some [120]) = Some (- 1, fresh)"
  using unknown_key_rejected [of 90 fresh 43 "[120]"] by (simp add: known_key_def)

text \<open>
  The claim as stated fails at the NUL key, which is outside the mapping: on a fresh table
  \<^verbatim>\<open>m4_set_syntax\<close> with key NUL, action \<^verbatim>\<open>+\<close> and the string \<^verbatim>\<open>x\<close> returns
  0, not a negative value.
\<close>

theorem null_key_counterexample:
  "\<not> known_key 0 \<and> changesyntax_code [] 0 43 (Some [120]) = Some 0"
  by (simp add: known_key_def changesyntax_code_def run_Nil m4_set_syntax_def Let_def)

subsection \<open>Adding and removing a mask\<close>

text \<open>
  C8, as amended.  For every byte \<open>b\<close>, every mask code \<open>m\<close> (RQUOTE or ECOMM) and every
  table, adding \<open>m\<close> to \<open>b\<close> and then removing it leaves the entry of \<open>b\<close> with \<open>m\<close>
  cleared and the rest as before; the entry is back at its value before the add exactly
  when \<open>b\<close> did not carry \<open>m\<close> before.
\<close>

theorem add_then_remove_mask:
  "m = M4_SYNTAX_RQUOTE \<or> m = M4_SYNTAX_ECOMM \<Longrightarrow>
     add_then_remove s b m = Some (remove_code (table s b) m)
     \<and> (add_then_remove s b m = Some (table s b) \<longleftrightarrow> \<not> m4_has_syntax s b m)"
proof -
  assume m: "m = M4_SYNTAX_RQUOTE \<or> m = M4_SYNTAX_ECOMM"
  then have mm: "m AND M4_SYNTAX_MASKS \<noteq> 0" by (auto simp: code_defs)
  have 1: "add_then_remove s b m = Some (remove_code (add_code (table s b) m) m)"
    by (simp add: add_then_remove_def add_syntax_attribute_code
        remove_syntax_attribute_code mm)
  have 2: "remove_code (add_code (table s b) m) m = remove_code (table s b) m"
    using mm by (simp add: remove_code_word add_code_word)
      (rule bit_word_eqI, auto simp: bit_simps)
  have 3: "(remove_code (table s b) m = table s b) = (\<not> has_code (table s b) m)"
    by (auto simp: remove_code_word has_code_word bit_eq_iff bit_simps)
  show ?thesis using 1 2 3 by (simp add: m4_has_syntax_code)
qed

theorem add_then_remove_mask_witness:
  "(M4_SYNTAX_ECOMM = M4_SYNTAX_RQUOTE \<or> M4_SYNTAX_ECOMM = M4_SYNTAX_ECOMM)
   \<and> \<not> m4_has_syntax fresh 39 M4_SYNTAX_ECOMM
   \<and> add_then_remove fresh 39 M4_SYNTAX_ECOMM = Some (table fresh 39)"
  using add_then_remove_mask [of M4_SYNTAX_ECOMM fresh 39]
  by (simp add: fresh_eq m4_has_syntax_code has_code_def remove_code_def code_defs)

text \<open>
  The claim as stated fails where the byte carries the mask already: on a fresh table the
  apostrophe has the entry OTHER with RQUOTE (16400), and after adding and removing
  RQUOTE its entry is OTHER alone (16).
\<close>

theorem add_then_remove_counterexample:
  "entry_after [] 39 = Some 16400 \<and> add_then_remove_after [] 39 M4_SYNTAX_RQUOTE = Some 16"
  by (simp add: entry_after_def add_then_remove_after_def run_Nil fresh_eq
      add_then_remove_def add_syntax_attribute_code remove_syntax_attribute_code
      add_code_def remove_code_def code_defs)

end
